theory Spec2Isabelle
  imports
    Complex_Main
    "HOL-Library.AList"
    "HOL-Library.Multiset"
    "HOL-Library.Product_Lexorder"
    "HOL-Library.List_Lexorder"
    "HOL-Library.Char_ord"
begin

section \<open>Values, errors and library operations\<close>

text \<open>
  The analysis code of the repository works on pandas data frames of floats, on Python
  tuples, lists and dicts, and on the \<^verbatim>\<open>heapq\<close> module. In this development
  \<^item> a float is a \<^typ>\<open>real\<close>; a cell of a data frame is a \<^typ>\<open>real option\<close>, where
    \<^term>\<open>None\<close> is a missing value (what \<^verbatim>\<open>dropna\<close> removes and \<^verbatim>\<open>sum\<close> skips).
    Rounding and infinities are outside the model. NaN is modelled where the code
    computes it from well-formed data, in the Sharpe ratios, whose values are
    \<^typ>\<open>real option\<close> as well;
  \<^item> a ticker is a \<^typ>\<open>string\<close>; strings and tuples are compared as Python compares them,
    lexicographically (the orders of \<open>List_Lexorder\<close>, \<open>Char_ord\<close> and \<open>Product_Lexorder\<close>);
  \<^item> a dict is an association list in insertion order, written with \<^const>\<open>AList.update\<close>
    (a new key goes to the end, an old key keeps its place) and read with \<^const>\<open>map_of\<close>;
  \<^item> every \<^verbatim>\<open>raise\<close>, failed index and failed key lookup is a value \<open>Inl e\<close> of the
    result type \<open>error + 'a\<close>.
\<close>

datatype message =
    Requested_days int nat   \<comment> \<open>"Requested n days but only m available"\<close>
  | Ticker_not_found string  \<comment> \<open>"Ticker t not found in correlation matrix"\<close>

datatype error =
    ValueError message
  | IndexError
  | KeyError string
  | ZeroDivisionError

type_synonym ticker = string

subsection \<open>Loops that may raise\<close>

fun for_each :: "'a list \<Rightarrow> ('a \<Rightarrow> 's \<Rightarrow> error + 's) \<Rightarrow> 's \<Rightarrow> error + 's" where
  "for_each [] body s = Inr s"
| "for_each (x # xs) body s =
     (case body x s of Inl e \<Rightarrow> Inl e | Inr s' \<Rightarrow> for_each xs body s')"

subsection \<open>The heapq module\<close>

text \<open>
  \<^verbatim>\<open>heapq\<close> is library code. It is modelled by its contract: a heap is a list whose
  element at index 0 is its minimum, \<^verbatim>\<open>heappush\<close> adds an item, \<^verbatim>\<open>heappop\<close> removes
  and returns the minimum, \<^verbatim>\<open>heappushpop(heap, item)\<close> swaps the item with the minimum
  when the heap is non-empty and its minimum is smaller than the item. The representative
  chosen for a heap is the ascending list of its items, which is a valid heap layout; the
  code of the repository reads a heap only through its length, its element 0, successive
  \<^verbatim>\<open>heappop\<close>s and a sort of all its items, none of which depends on the layout.
\<close>

type_synonym 'a heap = "'a list"

definition heappush :: "'a::linorder heap \<Rightarrow> 'a \<Rightarrow> 'a heap" where
  "heappush h x = insort x h"

definition heappop :: "'a::linorder heap \<Rightarrow> error + ('a \<times> 'a heap)" where
  "heappop h = (case h of [] \<Rightarrow> Inl IndexError | m # r \<Rightarrow> Inr (m, r))"

definition heappushpop :: "'a::linorder heap \<Rightarrow> 'a \<Rightarrow> 'a \<times> 'a heap" where
  "heappushpop h x =
     (case h of
        [] \<Rightarrow> (x, h)
      | m # r \<Rightarrow> if m < x then (m, insort x r) else (x, h))"

text \<open>\<^verbatim>\<open>xs[0]\<close> on a Python list.\<close>

definition item0 :: "'a list \<Rightarrow> error + 'a" where
  "item0 xs = (case xs of [] \<Rightarrow> Inl IndexError | x # _ \<Rightarrow> Inr x)"

subsection \<open>Sorting\<close>

text \<open>
  \<^verbatim>\<open>sorted(xs, reverse=True)\<close> on tuples, whose order is total: the descending list.
  \<^verbatim>\<open>xs.sort(key=lambda x: x[1], reverse=True)\<close> is stable: items with equal keys keep
  their order.
\<close>

definition sorted_reverse :: "'a::linorder list \<Rightarrow> 'a list" where
  "sorted_reverse xs = rev (sort xs)"

definition sort_by_score_reverse :: "('a \<times> real) list \<Rightarrow> ('a \<times> real) list" where
  "sort_by_score_reverse xs = sort_key (\<lambda>x. - snd x) xs"

section \<open>Data frames\<close>

record dataframe =
  columns :: "ticker list"
  rows :: "real option list list"

definition len_df :: "dataframe \<Rightarrow> nat" where
  "len_df df = length (rows df)"

text \<open>
  \<^verbatim>\<open>DataFrame.tail(n)\<close>: \<^verbatim>\<open>iloc[0:0]\<close> when \<open>n = 0\<close>, else \<^verbatim>\<open>iloc[-n:]\<close>; a negative
  \<open>n\<close> therefore drops the first \<open>-n\<close> rows.
\<close>

definition tail_rows :: "int \<Rightarrow> 'a list \<Rightarrow> 'a list" where
  "tail_rows n xs =
     (if n = 0 then []
      else if 0 < n then drop (length xs - nat n) xs
      else drop (nat (- n)) xs)"

definition tail :: "int \<Rightarrow> dataframe \<Rightarrow> dataframe" where
  "tail n df = df\<lparr>rows := tail_rows n (rows df)\<rparr>"

fun dropna :: "real option list \<Rightarrow> real list" where
  "dropna [] = []"
| "dropna (None # vs) = dropna vs"
| "dropna (Some v # vs) = v # dropna vs"

text \<open>The values of the column at position \<open>c\<close>, oldest row first.\<close>

definition column_at :: "dataframe \<Rightarrow> nat \<Rightarrow> real option list" where
  "column_at df c = map (\<lambda>r. r ! c) (rows df)"

text \<open>\<^verbatim>\<open>df[ticker]\<close>: the column with that label, \<^verbatim>\<open>KeyError\<close> when there is none.\<close>

fun index_of :: "'a \<Rightarrow> 'a list \<Rightarrow> nat option" where
  "index_of x [] = None"
| "index_of x (y # ys) =
     (if x = y then Some 0 else map_option Suc (index_of x ys))"

definition getitem :: "dataframe \<Rightarrow> ticker \<Rightarrow> error + real option list" where
  "getitem df t =
     (case index_of t (columns df) of
        None \<Rightarrow> Inl (KeyError t)
      | Some c \<Rightarrow> Inr (column_at df c))"

text \<open>The column \<^verbatim>\<open>df[ticker]\<close> of a ticker that is a column label.\<close>

definition column_of :: "dataframe \<Rightarrow> ticker \<Rightarrow> real option list" where
  "column_of df t = column_at df (the (index_of t (columns df)))"

text \<open>\<^verbatim>\<open>df.sum().items()\<close>: each column label with the sum of its values, missing values skipped.\<close>

definition sum_items :: "dataframe \<Rightarrow> (ticker \<times> real) list" where
  "sum_items df =
     map (\<lambda>c. (columns df ! c, sum_list (dropna (column_at df c)))) [0..<length (columns df)]"

section \<open>Order-statistics ranker (stock\_analyzer.py)\<close>

text \<open>
  The loop of \<^verbatim>\<open>topk_stocks\<close> over the items of \<^verbatim>\<open>total_returns\<close>. The heap holds tuples
  \<open>(total_return, ticker)\<close>. When the heap already has \<open>k_stocks\<close> items (in particular when
  \<open>k_stocks \<le> 0\<close>), the code reads \<^verbatim>\<open>min_heap[0][0]\<close>.
\<close>

fun topk_stocks_loop ::
  "(ticker \<times> real) list \<Rightarrow> int \<Rightarrow> (real \<times> ticker) heap \<Rightarrow> error + (real \<times> ticker) heap" where
  "topk_stocks_loop [] k_stocks min_heap = Inr min_heap"
| "topk_stocks_loop ((tk, total_return) # rest) k_stocks min_heap =
     (if int (length min_heap) < k_stocks
      then topk_stocks_loop rest k_stocks (heappush min_heap (total_return, tk))
      else
        (case item0 min_heap of
           Inl e \<Rightarrow> Inl e
         | Inr smallest \<Rightarrow>
             if total_return > fst smallest
             then topk_stocks_loop rest k_stocks
                    (snd (heappushpop min_heap (total_return, tk)))
             else topk_stocks_loop rest k_stocks min_heap))"

definition topk_stocks_items ::
  "(ticker \<times> real) list \<Rightarrow> int \<Rightarrow> error + (real \<times> ticker) list" where
  "topk_stocks_items items k_stocks =
     (case topk_stocks_loop items k_stocks [] of
        Inl e \<Rightarrow> Inl e
      | Inr min_heap \<Rightarrow> Inr (sorted_reverse min_heap))"

definition topk_stocks :: "dataframe \<Rightarrow> int \<Rightarrow> int \<Rightarrow> error + (real \<times> ticker) list" where
  "topk_stocks returns_df n_days k_stocks =
     (if n_days > int (len_df returns_df)
      then Inl (ValueError (Requested_days n_days (len_df returns_df)))
      else topk_stocks_items (sum_items (tail n_days returns_df)) k_stocks)"

text \<open>
  \<^verbatim>\<open>leastk_stocks\<close>: the same loop on negated returns; the heap is mapped back and sorted
  ascending.
\<close>

fun leastk_stocks_loop ::
  "(ticker \<times> real) list \<Rightarrow> int \<Rightarrow> (real \<times> ticker) heap \<Rightarrow> error + (real \<times> ticker) heap" where
  "leastk_stocks_loop [] k_stocks max_heap = Inr max_heap"
| "leastk_stocks_loop ((tk, total_return) # rest) k_stocks max_heap =
     (if int (length max_heap) < k_stocks
      then leastk_stocks_loop rest k_stocks (heappush max_heap (- total_return, tk))
      else
        (case item0 max_heap of
           Inl e \<Rightarrow> Inl e
         | Inr largest \<Rightarrow>
             if total_return < - fst largest
             then leastk_stocks_loop rest k_stocks
                    (snd (heappushpop max_heap (- total_return, tk)))
             else leastk_stocks_loop rest k_stocks max_heap))"

definition leastk_stocks_items ::
  "(ticker \<times> real) list \<Rightarrow> int \<Rightarrow> error + (real \<times> ticker) list" where
  "leastk_stocks_items items k_stocks =
     (case leastk_stocks_loop items k_stocks [] of
        Inl e \<Rightarrow> Inl e
      | Inr max_heap \<Rightarrow> Inr (sort (map (\<lambda>(return_val, tk). (- return_val, tk)) max_heap)))"

definition leastk_stocks :: "dataframe \<Rightarrow> int \<Rightarrow> int \<Rightarrow> error + (real \<times> ticker) list" where
  "leastk_stocks returns_df n_days k_stocks =
     (if n_days > int (len_df returns_df)
      then Inl (ValueError (Requested_days n_days (len_df returns_df)))
      else leastk_stocks_items (sum_items (tail n_days returns_df)) k_stocks)"


text \<open>
  The reference the ranker is compared with, in the words of the specification:
  \<^verbatim>\<open>sort(stream, descending)[:k]\<close>, the stream sorted by score, highest first, cut after
  \<open>k\<close> items. \<^verbatim>\<open>xs[:k]\<close> with a negative \<open>k\<close> drops the last \<open>-k\<close> items.
\<close>

definition slice_to :: "int \<Rightarrow> 'a list \<Rightarrow> 'a list" where
  "slice_to k xs = (if 0 \<le> k then take (nat k) xs else take (length xs - nat (- k)) xs)"

definition sort_descending_then_slice :: "(ticker \<times> real) list \<Rightarrow> int \<Rightarrow> (ticker \<times> real) list" where
  "sort_descending_then_slice stream k = slice_to k (sort_by_score_reverse stream)"

section \<open>Correlation matrix engine (correlation\_calculator.py)\<close>

text \<open>
  The frame returned by \<^verbatim>\<open>DataFrame.corr()\<close>: its index and its columns carry the same labels,
  and \<open>cells m ! i ! j\<close> is the value in row \<open>i\<close> and column \<open>j\<close>. The computation of the Pearson
  coefficients is pandas code; it is a parameter \<open>corr\<close> of the model.
\<close>

record matrix =
  labels :: "ticker list"
  cells :: "real list list"

definition calculate_correlation_matrix ::
  "(dataframe \<Rightarrow> matrix) \<Rightarrow> dataframe \<Rightarrow> int \<Rightarrow> error + matrix" where
  "calculate_correlation_matrix corr returns_df n_days =
     (if n_days > int (len_df returns_df)
      then Inl (ValueError (Requested_days n_days (len_df returns_df)))
      else Inr (corr (tail n_days returns_df)))"

text \<open>
  A series is the list of its (label, value) items. \<^verbatim>\<open>m[ticker]\<close> is the column of that label,
  indexed by the row labels; \<^verbatim>\<open>.drop(ticker)\<close> removes the items with that label and raises
  \<^verbatim>\<open>KeyError\<close> when there is none.
\<close>

type_synonym series = "(ticker \<times> real) list"

definition matrix_column :: "matrix \<Rightarrow> ticker \<Rightarrow> error + series" where
  "matrix_column m t =
     (case index_of t (labels m) of
        None \<Rightarrow> Inl (KeyError t)
      | Some c \<Rightarrow> Inr (zip (labels m) (map (\<lambda>r. r ! c) (cells m))))"

definition drop_label :: "series \<Rightarrow> ticker \<Rightarrow> error + series" where
  "drop_label s t =
     (if t \<in> fst ` set s then Inr (filter (\<lambda>x. fst x \<noteq> t) s) else Inl (KeyError t))"

text \<open>
  \<^verbatim>\<open>Series.nlargest(k)\<close>: the \<open>k\<close> largest values, highest first, the first occurrence first
  among equal values; nothing for \<open>k \<le> 0\<close>.
\<close>

definition nlargest :: "int \<Rightarrow> series \<Rightarrow> series" where
  "nlargest k s = take (nat k) (sort_by_score_reverse s)"

definition get_topk_similar_stocks :: "matrix \<Rightarrow> ticker \<Rightarrow> int \<Rightarrow> error + series" where
  "get_topk_similar_stocks correlation_matrix t k =
     (if t \<notin> set (labels correlation_matrix)
      then Inl (ValueError (Ticker_not_found t))
      else
        (case matrix_column correlation_matrix t of
           Inl e \<Rightarrow> Inl e
         | Inr correlations \<Rightarrow>
             (case drop_label correlations t of
                Inl e \<Rightarrow> Inl e
              | Inr correlations' \<Rightarrow> Inr (nlargest k correlations'))))"

text \<open>
  \<^verbatim>\<open>correlations[correlations >= threshold].sort_values(ascending=False)\<close>.
  \<^verbatim>\<open>Series.sort_values\<close> is pandas code, by default on numpy's quicksort, which does not keep
  the order of equal values. It is a parameter \<open>sort_values\<close> of the model; what is known of
  it is that it returns the items it was given, highest value first.
\<close>

definition descending_sort :: "(series \<Rightarrow> series) \<Rightarrow> bool" where
  "descending_sort sort_values \<longleftrightarrow>
     (\<forall>s. mset (sort_values s) = mset s \<and> sorted (rev (map snd (sort_values s))))"

definition get_similar_stocks_threshold ::
  "(series \<Rightarrow> series) \<Rightarrow> matrix \<Rightarrow> ticker \<Rightarrow> real \<Rightarrow> error + series" where
  "get_similar_stocks_threshold sort_values correlation_matrix t threshold =
     (if t \<notin> set (labels correlation_matrix)
      then Inl (ValueError (Ticker_not_found t))
      else
        (case matrix_column correlation_matrix t of
           Inl e \<Rightarrow> Inl e
         | Inr correlations \<Rightarrow>
             (case drop_label correlations t of
                Inl e \<Rightarrow> Inl e
              | Inr correlations' \<Rightarrow>
                  Inr (sort_values (filter (\<lambda>x. snd x \<ge> threshold) correlations')))))"

text \<open>
  The brute-force reference of the specification for \<open>aboveThreshold(m, t, \<tau>)\<close>: walk the
  full matrix row of \<open>t\<close>, keep every other ticker whose score is at least \<open>\<tau>\<close>, sort
  descending by score, as \<^verbatim>\<open>sorted(items, key=score, reverse=True)\<close> does: equal scores stay
  in the order of the row.
\<close>

definition matrix_row :: "matrix \<Rightarrow> ticker \<Rightarrow> series" where
  "matrix_row m t = zip (labels m) (cells m ! the (index_of t (labels m)))"

definition above_threshold_brute_force :: "matrix \<Rightarrow> ticker \<Rightarrow> real \<Rightarrow> series" where
  "above_threshold_brute_force m t \<tau> =
     sort_by_score_reverse (filter (\<lambda>(u, score). u \<noteq> t \<and> score \<ge> \<tau>) (matrix_row m t))"

text \<open>
  A correlation matrix as the data model has it: square over its labels, no label twice,
  symmetric.
\<close>

definition correlation_matrix_ok :: "matrix \<Rightarrow> bool" where
  "correlation_matrix_ok m \<longleftrightarrow>
     distinct (labels m) \<and>
     length (cells m) = length (labels m) \<and>
     (\<forall>r \<in> set (cells m). length r = length (labels m)) \<and>
     (\<forall>i < length (labels m). \<forall>j < length (labels m). cells m ! i ! j = cells m ! j ! i)"

section \<open>Sharpe ranking (sharpe\_ratio\_calculator.py)\<close>

text \<open>
  The Sharpe computation can produce NaN from well-formed returns (the standard deviation
  of a single value), so its float results are values of \<^typ>\<open>real option\<close>, \<^term>\<open>None\<close>
  being NaN: NaN spreads through arithmetic, and every comparison with NaN is false.
  A zero divisor, on which numpy answers with an infinity or NaN, does not occur: the one
  float division of the code is guarded by a test of the divisor against \<open>0\<close>; \<open>fdiv\<close> gives
  \<^term>\<open>None\<close> there. Rounding stays outside the model: the test of the volatility against
  \<open>0\<close> is exact here, while in floats the deviation of a constant column can round to a
  tiny number other than \<open>0\<close>.
\<close>

type_synonym score = "real option"

definition fmul :: "score \<Rightarrow> score \<Rightarrow> score" where
  "fmul a b = (case (a, b) of (Some x, Some y) \<Rightarrow> Some (x * y) | _ \<Rightarrow> None)"

definition fsub :: "score \<Rightarrow> score \<Rightarrow> score" where
  "fsub a b = (case (a, b) of (Some x, Some y) \<Rightarrow> Some (x - y) | _ \<Rightarrow> None)"

definition fdiv :: "score \<Rightarrow> score \<Rightarrow> score" where
  "fdiv a b =
     (case (a, b) of
        (Some x, Some y) \<Rightarrow> if y = 0 then None else Some (x / y)
      | _ \<Rightarrow> None)"

text \<open>\<open>a < b\<close> on floats.\<close>

definition flt :: "score \<Rightarrow> score \<Rightarrow> bool" where
  "flt a b = (case (a, b) of (Some x, Some y) \<Rightarrow> x < y | _ \<Rightarrow> False)"

text \<open>\<^verbatim>\<open>np.sqrt\<close>: NaN on a negative number.\<close>

definition np_sqrt :: "real \<Rightarrow> score" where
  "np_sqrt x = (if x < 0 then None else Some (sqrt x))"

text \<open>
  \<^verbatim>\<open>Series.mean()\<close>: NaN on an empty series. \<^verbatim>\<open>Series.std()\<close>: the sample standard
  deviation (\<open>ddof = 1\<close>), NaN on a series of fewer than two values.
\<close>

definition mean :: "real list \<Rightarrow> score" where
  "mean xs = (if xs = [] then None else Some (sum_list xs / real (length xs)))"

definition std :: "real list \<Rightarrow> score" where
  "std xs =
     (if length xs < 2 then None
      else Some (sqrt (sum_list (map (\<lambda>x. (x - sum_list xs / real (length xs))\<^sup>2) xs)
                         / (real (length xs) - 1))))"

text \<open>\<^verbatim>\<open>a / b\<close> on a Python float and a Python int.\<close>

definition truediv :: "real \<Rightarrow> real \<Rightarrow> error + real" where
  "truediv a b = (if b = 0 then Inl ZeroDivisionError else Inr (a / b))"

text \<open>The body of the loop of \<^verbatim>\<open>calculate_sharpe_ratios\<close> for one column.\<close>

definition sharpe_ratio :: "real \<Rightarrow> int \<Rightarrow> real option list \<Rightarrow> score" where
  "sharpe_ratio risk_free_rate annualization_factor col =
     (let returns = dropna col;
          annualized_return = fmul (mean returns) (Some (real_of_int annualization_factor));
          annualized_volatility =
            fmul (std returns) (np_sqrt (real_of_int annualization_factor))
      in if annualized_volatility = Some 0 then Some 0
         else fdiv (fsub annualized_return (Some risk_free_rate)) annualized_volatility)"

text \<open>
  \<^verbatim>\<open>daily_risk_free = risk_free_rate / annualization_factor\<close> is computed before the loop
  and not used after; it raises \<^verbatim>\<open>ZeroDivisionError\<close> when the factor is \<open>0\<close>.
\<close>

definition calculate_sharpe_ratios ::
  "dataframe \<Rightarrow> ticker list \<Rightarrow> real \<Rightarrow> int \<Rightarrow> error + score list" where
  "calculate_sharpe_ratios returns_df ordered_tickers risk_free_rate annualization_factor =
     (case truediv risk_free_rate (real_of_int annualization_factor) of
        Inl e \<Rightarrow> Inl e
      | Inr daily_risk_free \<Rightarrow>
          for_each ordered_tickers
            (\<lambda>tk sharpe_ratios.
               case getitem returns_df tk of
                 Inl e \<Rightarrow> Inl e
               | Inr col \<Rightarrow>
                   Inr (sharpe_ratios @ [sharpe_ratio risk_free_rate annualization_factor col]))
            [])"

text \<open>
  \<^verbatim>\<open>ranked_stocks.sort(key=lambda x: x[1], reverse=True)\<close> is CPython code. The sort is
  stable, so on scores that are all numbers it is the stable descending sort; when a score
  is NaN, every comparison with it is false and the order that results depends on the
  runs and merges of the sort. It is a parameter \<open>list_sort\<close> of the model, of which that
  much is known.
\<close>

definition python_sort :: "((ticker \<times> score) list \<Rightarrow> (ticker \<times> score) list) \<Rightarrow> bool" where
  "python_sort list_sort \<longleftrightarrow>
     (\<forall>xs. mset (list_sort xs) = mset xs \<and>
           (None \<notin> snd ` set xs \<longrightarrow> list_sort xs = sort_key (\<lambda>x. - the (snd x)) xs))"

definition get_sharpe_ranking ::
  "((ticker \<times> score) list \<Rightarrow> (ticker \<times> score) list) \<Rightarrow> dataframe \<Rightarrow> ticker list \<Rightarrow> real
     \<Rightarrow> error + (ticker \<times> score) list" where
  "get_sharpe_ranking list_sort returns_df ordered_tickers risk_free_rate =
     (case calculate_sharpe_ratios returns_df ordered_tickers risk_free_rate 252 of
        Inl e \<Rightarrow> Inl e
      | Inr sharpe_ratios \<Rightarrow> Inr (list_sort (zip ordered_tickers sharpe_ratios)))"

definition get_top_sharpe_stocks ::
  "((ticker \<times> score) list \<Rightarrow> (ticker \<times> score) list) \<Rightarrow> dataframe \<Rightarrow> ticker list \<Rightarrow> int \<Rightarrow> real
     \<Rightarrow> error + (ticker \<times> score) list" where
  "get_top_sharpe_stocks list_sort returns_df ordered_tickers top_k risk_free_rate =
     (case get_sharpe_ranking list_sort returns_df ordered_tickers risk_free_rate of
        Inl e \<Rightarrow> Inl e
      | Inr ranked_stocks \<Rightarrow> Inr (slice_to top_k ranked_stocks))"

text \<open>
  Highest first, for scores that may be NaN: no score is less than a later one.
\<close>

definition descending_scores :: "(ticker \<times> score) list \<Rightarrow> bool" where
  "descending_scores ranked = sorted_wrt (\<lambda>x y. \<not> flt (snd x) (snd y)) ranked"

section \<open>Correlation graph (correlation\_network.py)\<close>

text \<open>
  The adjacency structure \<^verbatim>\<open>{source: {target: weight}}\<close> is a dict of dicts. The entries
  of the result lists are dicts with a \<^verbatim>\<open>'ticker'\<close> key and one more key.
\<close>

type_synonym graph = "(ticker \<times> (ticker \<times> real) list) list"

record entry =
  ticker :: string

record similar_stock = entry +
  correlation_strength :: real

record common_stock = entry +
  avg_correlation_strength :: real

record network =
  correlation_matrix :: matrix
  ordered_tickers :: "ticker list"
  threshold :: real
  graph :: graph

text \<open>\<^verbatim>\<open>m.iloc[i, j]\<close> for positions \<open>i, j \<ge> 0\<close>.\<close>

definition iloc :: "matrix \<Rightarrow> nat \<Rightarrow> nat \<Rightarrow> error + real" where
  "iloc m i j =
     (if i < length (cells m) \<and> j < length (cells m ! i)
      then Inr (cells m ! i ! j) else Inl IndexError)"

text \<open>\<^verbatim>\<open>{ticker: {} for ticker in ordered_tickers}\<close>\<close>

definition empty_graph :: "ticker list \<Rightarrow> graph" where
  "empty_graph tickers = fold (\<lambda>tk g. AList.update tk [] g) tickers []"

text \<open>\<^verbatim>\<open>graph[ticker_i][ticker_j] = w\<close>\<close>

definition set_edge :: "graph \<Rightarrow> ticker \<Rightarrow> ticker \<Rightarrow> real \<Rightarrow> error + graph" where
  "set_edge g ticker_i ticker_j w =
     (case map_of g ticker_i of
        None \<Rightarrow> Inl (KeyError ticker_i)
      | Some neighbors \<Rightarrow> Inr (AList.update ticker_i (AList.update ticker_j w neighbors) g))"

definition build_graph_step ::
  "matrix \<Rightarrow> real \<Rightarrow> nat \<times> ticker \<Rightarrow> nat \<times> ticker \<Rightarrow> graph \<Rightarrow> error + graph" where
  "build_graph_step m thr = (\<lambda>(i, ticker_i) (j, ticker_j) g.
     if i < j then
       (case iloc m i j of
          Inl e \<Rightarrow> Inl e
        | Inr corr \<Rightarrow>
            if \<bar>corr\<bar> > thr then set_edge g ticker_i ticker_j \<bar>corr\<bar> else Inr g)
     else Inr g)"

definition build_graph :: "matrix \<Rightarrow> ticker list \<Rightarrow> real \<Rightarrow> error + graph" where
  "build_graph m tickers thr =
     for_each (enumerate 0 tickers)
       (\<lambda>source g. for_each (enumerate 0 tickers) (build_graph_step m thr source) g)
       (empty_graph tickers)"

definition init :: "matrix \<Rightarrow> ticker list \<Rightarrow> real \<Rightarrow> error + network" where
  "init m tickers thr =
     (case build_graph m tickers thr of
        Inl e \<Rightarrow> Inl e
      | Inr g \<Rightarrow>
          Inr \<lparr>correlation_matrix = m, ordered_tickers = tickers, threshold = thr, graph = g\<rparr>)"

text \<open>The weight of the edge from \<open>s\<close> to \<open>t\<close>, when the graph has one.\<close>

definition edge :: "graph \<Rightarrow> ticker \<Rightarrow> ticker \<Rightarrow> real option" where
  "edge g s t = (case map_of g s of None \<Rightarrow> None | Some neighbors \<Rightarrow> map_of neighbors t)"

subsection \<open>Neighbour queries\<close>

text \<open>The two collecting loops of \<^verbatim>\<open>get_similar_stocks\<close>: the state is the heap and \<^verbatim>\<open>visited\<close>.\<close>

definition push_outgoing ::
  "ticker \<times> real \<Rightarrow> (real \<times> ticker) heap \<times> ticker set \<Rightarrow> (real \<times> ticker) heap \<times> ticker set" where
  "push_outgoing = (\<lambda>(neighbor, weight) (heap, visited).
     if neighbor \<notin> visited
     then (heappush heap (- weight, neighbor), insert neighbor visited)
     else (heap, visited))"

definition push_incoming ::
  "ticker \<Rightarrow> ticker \<times> (ticker \<times> real) list \<Rightarrow> (real \<times> ticker) heap \<times> ticker set
     \<Rightarrow> (real \<times> ticker) heap \<times> ticker set" where
  "push_incoming tk = (\<lambda>(source_ticker, neighbors) (heap, visited).
     (case map_of neighbors tk of
        Some weight \<Rightarrow>
          if source_ticker \<notin> visited
          then (heappush heap (- weight, source_ticker), insert source_ticker visited)
          else (heap, visited)
      | None \<Rightarrow> (heap, visited)))"

text \<open>\<^verbatim>\<open>while heap and len(similar_stocks) < n: ... heappop(heap) ...\<close>\<close>

function pop_similar ::
  "(real \<times> ticker) heap \<Rightarrow> int \<Rightarrow> similar_stock list \<Rightarrow> error + similar_stock list" where
  "pop_similar heap n similar_stocks =
     (if heap \<noteq> [] \<and> int (length similar_stocks) < n then
        (case heappop heap of
           Inl e \<Rightarrow> Inl e
         | Inr (popped, heap') \<Rightarrow>
             pop_similar heap' n
               (similar_stocks @ [\<lparr>ticker = snd popped, correlation_strength = - fst popped\<rparr>]))
      else Inr similar_stocks)"
  by pat_completeness auto
termination
  by (relation "measure (\<lambda>(heap, n, similar_stocks). length heap)")
     (auto simp: heappop_def split: list.splits)

declare pop_similar.simps [simp del]

definition similar_of :: "graph \<Rightarrow> ticker \<Rightarrow> int \<Rightarrow> error + similar_stock list" where
  "similar_of g tk n =
     (case map_of g tk of
        None \<Rightarrow> Inr []
      | Some outgoing \<Rightarrow>
          (let (heap, visited) = fold push_outgoing outgoing ([], {tk});
               (heap, visited) = fold (push_incoming tk) g (heap, visited)
           in pop_similar heap n []))"

definition get_similar_stocks ::
  "network \<Rightarrow> ticker list \<Rightarrow> int \<Rightarrow> error + (ticker \<times> similar_stock list) list" where
  "get_similar_stocks self tickers n =
     for_each tickers
       (\<lambda>tk results.
          case similar_of (graph self) tk n of
            Inl e \<Rightarrow> Inl e
          | Inr similar_stocks \<Rightarrow> Inr (AList.update tk similar_stocks results))
       []"

text \<open>\<^verbatim>\<open>d[key]\<close> on a dict.\<close>

definition lookup :: "(ticker \<times> 'v) list \<Rightarrow> ticker \<Rightarrow> error + 'v" where
  "lookup d k = (case map_of d k of None \<Rightarrow> Inl (KeyError k) | Some v \<Rightarrow> Inr v)"

text \<open>
  The candidate set of \<^verbatim>\<open>get_common_similar_stocks\<close>. A Python set has no fixed iteration
  order; the model keeps the candidates in the order of the first ticker's list, which can
  only show in the order of candidates of equal average strength.
\<close>

definition tickers_of :: "similar_stock list \<Rightarrow> ticker list" where
  "tickers_of similar_stocks = remdups (map ticker similar_stocks)"

definition intersect_step ::
  "(ticker \<times> similar_stock list) list \<Rightarrow> ticker \<Rightarrow> ticker list \<Rightarrow> error + ticker list" where
  "intersect_step all_similar tk common_stocks =
     (case lookup all_similar tk of
        Inl e \<Rightarrow> Inl e
      | Inr similar_stocks \<Rightarrow>
          if similar_stocks \<noteq> []
          then Inr (filter (\<lambda>stock. stock \<in> set (tickers_of similar_stocks)) common_stocks)
          else Inr common_stocks)"

definition common_candidates ::
  "(ticker \<times> similar_stock list) list \<Rightarrow> ticker list \<Rightarrow> error + ticker list" where
  "common_candidates all_similar tickers =
     (case lookup all_similar (hd tickers) of
        Inl e \<Rightarrow> Inl e
      | Inr first_similar \<Rightarrow>
          if first_similar \<noteq> []
          then for_each (tl tickers) (intersect_step all_similar) (tickers_of first_similar)
          else Inr [])"

text \<open>The scan \<^verbatim>\<open>for source, neighbors in self.graph.items(): if source == stock and ... break\<close>\<close>

fun scan_sources :: "graph \<Rightarrow> ticker \<Rightarrow> ticker \<Rightarrow> real \<Rightarrow> real" where
  "scan_sources [] stock tk strength = strength"
| "scan_sources ((source, neighbors) # rest) stock tk strength =
     (case (if source = stock then map_of neighbors tk else None) of
        Some w \<Rightarrow> w
      | None \<Rightarrow> scan_sources rest stock tk strength)"

definition strength_of :: "graph \<Rightarrow> ticker \<Rightarrow> ticker \<Rightarrow> error + real" where
  "strength_of g stock tk =
     (case lookup g tk of
        Inl e \<Rightarrow> Inl e
      | Inr outgoing \<Rightarrow>
          (case map_of outgoing stock of
             Some w \<Rightarrow> Inr w
           | None \<Rightarrow> Inr (scan_sources g stock tk 0)))"

definition average_strength :: "graph \<Rightarrow> ticker list \<Rightarrow> ticker \<Rightarrow> error + common_stock" where
  "average_strength g tickers stock =
     (case for_each tickers
             (\<lambda>tk total_strength.
                case strength_of g stock tk of
                  Inl e \<Rightarrow> Inl e
                | Inr strength \<Rightarrow> Inr (total_strength + strength))
             0 of
        Inl e \<Rightarrow> Inl e
      | Inr total_strength \<Rightarrow>
          Inr \<lparr>ticker = stock,
               avg_correlation_strength = total_strength / real (length tickers)\<rparr>)"

definition get_common_similar_stocks ::
  "network \<Rightarrow> ticker list \<Rightarrow> int \<Rightarrow> error + common_stock list" where
  "get_common_similar_stocks self tickers n =
     (if tickers = [] then Inr []
      else
        (case get_similar_stocks self tickers (int (length (ordered_tickers self))) of
           Inl e \<Rightarrow> Inl e
         | Inr all_similar \<Rightarrow>
             (case common_candidates all_similar tickers of
                Inl e \<Rightarrow> Inl e
              | Inr common_stocks \<Rightarrow>
                  (case for_each common_stocks
                          (\<lambda>stock common_with_strength.
                             case average_strength (graph self) tickers stock of
                               Inl e \<Rightarrow> Inl e
                             | Inr c \<Rightarrow> Inr (common_with_strength @ [c]))
                          [] of
                     Inl e \<Rightarrow> Inl e
                   | Inr common_with_strength \<Rightarrow>
                       Inr (slice_to n
                              (sort_key (\<lambda>x. - avg_correlation_strength x)
                                 common_with_strength))))))"

text \<open>
  The neighbour set the specification speaks of: the tickers \<open>u\<close> with an edge from \<open>t\<close> to
  \<open>u\<close> (outgoing) or from \<open>u\<close> to \<open>t\<close> (incoming).
\<close>

definition neighbor_set :: "graph \<Rightarrow> ticker \<Rightarrow> ticker set" where
  "neighbor_set g t = {u. edge g t u \<noteq> None} \<union> {u. edge g u t \<noteq> None}"


subsection \<open>Notions used in the statements about the graph\<close>

text \<open>The weighted edges of a graph, and the edges one pass of the inner loop adds.\<close>

definition edges :: "graph \<Rightarrow> (ticker \<times> ticker \<times> real) set" where
  "edges g = {(s, t, w). edge g s t = Some w}"

definition new_edges ::
  "matrix \<Rightarrow> real \<Rightarrow> nat \<times> ticker \<Rightarrow> (nat \<times> ticker) list \<Rightarrow> (ticker \<times> ticker \<times> real) set" where
  "new_edges m thr src js = {(snd src, tj, \<bar>cells m ! fst src ! j\<bar>) | j tj.
      (j, tj) \<in> set js \<and> fst src < j \<and> \<bar>cells m ! fst src ! j\<bar> > thr}"

text \<open>The matrix has a cell for every pair of positions of the ticker list.\<close>

definition matrix_covers :: "matrix \<Rightarrow> ticker list \<Rightarrow> bool" where
  "matrix_covers m tickers \<longleftrightarrow>
     length tickers \<le> length (cells m) \<and>
     (\<forall>i < length tickers. length tickers \<le> length (cells m ! i))"

section \<open>Example data\<close>

text \<open>
  The example of the specification: tickers A, B, C over five days, A and B moving
  identically and C inversely, hence correlations \<open>1\<close> and \<open>-1\<close>.
\<close>

definition example_matrix :: matrix where
  "example_matrix =
     \<lparr>labels = [''A'', ''B'', ''C''],
      cells = [[1, 1, -1], [1, 1, -1], [-1, -1, 1]]\<rparr>"

text \<open>
  Five days of returns for A, B, C as above, and for a ticker D whose return is \<open>0\<close> every
  day.
\<close>

definition example_returns :: dataframe where
  "example_returns =
     \<lparr>columns = [''A'', ''B'', ''C'', ''D''],
      rows = [[Some 1, Some 1, Some (-1), Some 0],
              [Some 2, Some 2, Some (-2), Some 0],
              [Some (-1), Some (-1), Some 1, Some 0],
              [Some 3, Some 3, Some (-3), Some 0],
              [Some 0, Some 0, Some 0, Some 0]]\<rparr>"

text \<open>
  A stand-in for \<^verbatim>\<open>DataFrame.corr\<close> that shows which rows it was given: it returns them as
  the cells.
\<close>

definition window_probe :: "dataframe \<Rightarrow> matrix" where
  "window_probe df = \<lparr>labels = columns df, cells = map dropna (rows df)\<rparr>"

text \<open>A single day of returns: too short for a standard deviation.\<close>

definition one_day_returns :: dataframe where
  "one_day_returns = \<lparr>columns = [''A'', ''B''], rows = [[Some 1, Some 2]]\<rparr>"

text \<open>
  A sort that does what is known of \<^verbatim>\<open>list.sort\<close>: stable and descending on scores that
  are all numbers, and leaving other lists as they are.
\<close>

definition stable_on_numbers :: "(ticker \<times> score) list \<Rightarrow> (ticker \<times> score) list" where
  "stable_on_numbers xs =
     (if None \<notin> snd ` set xs then sort_key (\<lambda>x. - the (snd x)) xs else xs)"

text \<open>
  A symmetric matrix with equal scores in the column of A (D and E at \<open>0.9\<close>, B and C at
  \<open>0.5\<close>), and a descending sort that puts equal values in the reverse of their order, as a
  sort does that sorts ascending and then reverses.
\<close>

definition tied_matrix :: matrix where
  "tied_matrix =
     \<lparr>labels = [''A'', ''B'', ''C'', ''D'', ''E''],
      cells = [[1, 1 / 2, 1 / 2, 9 / 10, 9 / 10],
               [1 / 2, 1, 0, 0, 0],
               [1 / 2, 0, 1, 0, 0],
               [9 / 10, 0, 0, 1, 0],
               [9 / 10, 0, 0, 0, 1]]\<rparr>"

definition ascending_then_reversed :: "series \<Rightarrow> series" where
  "ascending_then_reversed s = rev (sort_key snd s)"

text \<open>The network \<^verbatim>\<open>CorrelationNetworkGraph(example_matrix, [A, B, C], 0.5)\<close>.\<close>

definition example_network :: network where
  "example_network =
     \<lparr>correlation_matrix = example_matrix,
      ordered_tickers = [''A'', ''B'', ''C''],
      threshold = 1 / 2,
      graph = [(''A'', [(''B'', 1), (''C'', 1)]), (''B'', [(''C'', 1)]), (''C'', [])]\<rparr>"

text \<open>
  A matrix in which only A and B are correlated above \<open>0.7\<close>, and the network
  \<^verbatim>\<open>CorrelationNetworkGraph(sparse_matrix, [A, B, C], 0.7)\<close>: one edge, from A to B; C has no
  neighbour.
\<close>

definition sparse_matrix :: matrix where
  "sparse_matrix =
     \<lparr>labels = [''A'', ''B'', ''C''],
      cells = [[1, 9 / 10, 1 / 10], [9 / 10, 1, 1 / 10], [1 / 10, 1 / 10, 1]]\<rparr>"

definition sparse_network :: network where
  "sparse_network =
     \<lparr>correlation_matrix = sparse_matrix,
      ordered_tickers = [''A'', ''B'', ''C''],
      threshold = 7 / 10,
      graph = [(''A'', [(''B'', 9 / 10)]), (''B'', []), (''C'', [])]\<rparr>"

section \<open>The ranker at its edge cases\<close>

text \<open>
  When \<open>k\<close> is at least the number of items, the loops only push: \<^verbatim>\<open>topk_stocks\<close> returns
  all items sorted descending and \<^verbatim>\<open>leastk_stocks\<close> all items sorted ascending, as tuples
  \<open>(total_return, ticker)\<close>. An empty stream gives the empty result for every \<open>k\<close>.
\<close>

lemma topk_loop_room:
  "int (length h + length items) \<le> k \<Longrightarrow>
   \<exists>h'. topk_stocks_loop items k h = Inr h' \<and> mset h' = mset h + mset (map prod.swap items)"
proof (induction items arbitrary: h)
  case Nil
  then show ?case by simp
next
  case (Cons it items)
  obtain tk x where it: "it = (tk, x)" by (cases it)
  have "int (length (heappush h (x, tk)) + length items) \<le> k"
    using Cons.prems by (simp add: heappush_def)
  from Cons.IH[OF this] obtain h' where
    "topk_stocks_loop items k (heappush h (x, tk)) = Inr h'"
    "mset h' = mset (heappush h (x, tk)) + mset (map prod.swap items)" by blast
  moreover have "int (length h) < k" using Cons.prems by simp
  ultimately show ?case by (simp add: it heappush_def)
qed

lemma topk_returns_all_when_k_covers:
  assumes "int (length items) \<le> k"
  shows "topk_stocks_items items k = Inr (sorted_reverse (map prod.swap items))"
proof -
  from topk_loop_room[of "[]" items k] assms obtain h' where
    h: "topk_stocks_loop items k [] = Inr h'" "mset h' = mset (map prod.swap items)" by auto
  have "sort h' = sort (map prod.swap items)"
    using h(2) by (metis properties_for_sort sorted_sort mset_sort)
  then show ?thesis using h(1) by (simp add: topk_stocks_items_def sorted_reverse_def)
qed

lemma leastk_loop_room:
  "int (length h + length items) \<le> k \<Longrightarrow>
   \<exists>h'. leastk_stocks_loop items k h = Inr h'
      \<and> mset h' = mset h + mset (map (\<lambda>(tk, r). (- r, tk)) items)"
proof (induction items arbitrary: h)
  case Nil
  then show ?case by simp
next
  case (Cons it items)
  obtain tk x where it: "it = (tk, x)" by (cases it)
  have "int (length (heappush h (- x, tk)) + length items) \<le> k"
    using Cons.prems by (simp add: heappush_def)
  from Cons.IH[OF this] obtain h' where
    "leastk_stocks_loop items k (heappush h (- x, tk)) = Inr h'"
    "mset h' = mset (heappush h (- x, tk)) + mset (map (\<lambda>(tk, r). (- r, tk)) items)" by blast
  moreover have "int (length h) < k" using Cons.prems by simp
  ultimately show ?case by (simp add: it heappush_def)
qed

lemma leastk_returns_all_when_k_covers:
  assumes "int (length items) \<le> k"
  shows "leastk_stocks_items items k = Inr (sort (map prod.swap items))"
proof -
  from leastk_loop_room[of "[]" items k] assms obtain h' where
    h: "leastk_stocks_loop items k [] = Inr h'"
       "mset h' = mset (map (\<lambda>(tk, r). (- r, tk)) items)" by auto
  have "mset (map (\<lambda>(return_val, tk). (- return_val, tk)) h')
          = image_mset (\<lambda>(return_val, tk). (- return_val, tk)) (mset (map (\<lambda>(tk, r). (- r, tk)) items))"
    using h(2) by (metis mset_map)
  also have "\<dots> = mset (map prod.swap items)"
    by (simp add: multiset.map_comp comp_def case_prod_unfold) (auto intro!: image_mset_cong)
  finally have "sort (map (\<lambda>(return_val, tk). (- return_val, tk)) h') = sort (map prod.swap items)"
    by (metis properties_for_sort sorted_sort mset_sort)
  then show ?thesis using h(1) by (simp add: leastk_stocks_items_def)
qed

lemma no_items_no_result:
  "topk_stocks_items [] k = Inr []" "leastk_stocks_items [] k = Inr []"
  by (simp_all add: topk_stocks_items_def leastk_stocks_items_def sorted_reverse_def)

text \<open>
  C4. The claim: for every stream of \<open>N\<close> items and every \<open>k \<ge> 0\<close>, \<^verbatim>\<open>topk_stocks\<close> and
  \<^verbatim>\<open>leastk_stocks\<close> complete without error; \<open>k = 0\<close> gives the empty result. The code does
  otherwise: with \<open>k = 0\<close> the heap never has fewer than \<open>k\<close> items, so the first item of a
  non-empty stream is compared with element 0 of the empty heap, and both functions raise
  \<^verbatim>\<open>IndexError\<close>. Shown on the one-item stream \<open>(AAPL, 5)\<close> and on the one-day returns table
  behind it.
\<close>

theorem k_zero_raises_IndexError:
  "topk_stocks_items [(''AAPL'', 5)] 0 = Inl IndexError
   \<and> leastk_stocks_items [(''AAPL'', 5)] 0 = Inl IndexError
   \<and> topk_stocks \<lparr>columns = [''AAPL''], rows = [[Some 5]]\<rparr> 1 0 = Inl IndexError
   \<and> leastk_stocks \<lparr>columns = [''AAPL''], rows = [[Some 5]]\<rparr> 1 0 = Inl IndexError"
  by (simp add: topk_stocks_items_def leastk_stocks_items_def item0_def topk_stocks_def
      leastk_stocks_def len_df_def tail_def tail_rows_def sum_items_def column_at_def)

section \<open>The ranker against sort-then-slice\<close>

subsection \<open>The heap keeps the best scores\<close>

lemma fst_mono_pair: "(x::real \<times> string) \<le> y \<Longrightarrow> fst x \<le> fst y"
  by (cases x; cases y) auto

lemma sorted_map_fst: "sorted (h::(real \<times> string) list) \<Longrightarrow> sorted (map fst h)"
  by (induction h) (auto simp: fst_mono_pair)

lemma topk_loop_invariant:
  assumes "0 < k" "sorted h" "int (length h) \<le> k"
    and "\<forall>y \<in># R. \<forall>z \<in> set h. fst y \<le> fst z"
    and "R \<noteq> {#} \<Longrightarrow> int (length h) = k"
  shows "\<exists>h' R'. topk_stocks_loop items k h = Inr h' \<and> sorted h' \<and> int (length h') \<le> k
           \<and> mset h' + R' = mset h + R + mset (map prod.swap items)
           \<and> (\<forall>y \<in># R'. \<forall>z \<in> set h'. fst y \<le> fst z)
           \<and> (R' \<noteq> {#} \<longrightarrow> int (length h') = k)"
  using assms
proof (induction items arbitrary: h R)
  case Nil
  then show ?case by auto
next
  case (Cons it items)
  obtain tk x where it: "it = (tk, x)" by (cases it)
  show ?case
  proof (cases "int (length h) < k")
    case True
    let ?h = "heappush h (x, tk)"
    have R: "R = {#}" using Cons.prems(5) True by auto
    have "\<exists>h' R'. topk_stocks_loop items k ?h = Inr h' \<and> sorted h' \<and> int (length h') \<le> k
           \<and> mset h' + R' = mset ?h + {#} + mset (map prod.swap items)
           \<and> (\<forall>y \<in># R'. \<forall>z \<in> set h'. fst y \<le> fst z)
           \<and> (R' \<noteq> {#} \<longrightarrow> int (length h') = k)"
      by (rule Cons.IH) (use Cons.prems True in \<open>auto simp: heappush_def sorted_insort\<close>)
    then obtain h' R' where *: "topk_stocks_loop items k ?h = Inr h'" "sorted h'" "int (length h') \<le> k"
           "mset h' + R' = mset ?h + {#} + mset (map prod.swap items)"
           "\<forall>y \<in># R'. \<forall>z \<in> set h'. fst y \<le> fst z"
           "R' \<noteq> {#} \<longrightarrow> int (length h') = k" by blast
    have "topk_stocks_loop (it # items) k h = Inr h'"
      using True *(1) by (simp add: it)
    moreover have "mset h' + R' = mset h + R + mset (map prod.swap (it # items))"
      using *(4) R by (simp add: it heappush_def)
    ultimately show ?thesis using * by blast
  next
    case False
    with Cons.prems have len: "int (length h) = k" by auto
    with \<open>0 < k\<close> obtain m r where h: "h = m # r" by (cases h) auto
    show ?thesis
    proof (cases "x > fst m")
      case True
      then have lt: "m < (x, tk)" by (cases m) auto
      let ?h = "insort (x, tk) r"
      let ?R = "R + {#m#}"
      have "\<exists>h' R'. topk_stocks_loop items k ?h = Inr h' \<and> sorted h' \<and> int (length h') \<le> k
           \<and> mset h' + R' = mset ?h + ?R + mset (map prod.swap items)
           \<and> (\<forall>y \<in># R'. \<forall>z \<in> set h'. fst y \<le> fst z)
           \<and> (R' \<noteq> {#} \<longrightarrow> int (length h') = k)"
      proof (rule Cons.IH)
        show "0 < k" by fact
        show "sorted ?h" using Cons.prems(2) h by (simp add: sorted_insort)
        show "int (length ?h) \<le> k" using len h by simp
        show "\<forall>y \<in># ?R. \<forall>z \<in> set ?h. fst y \<le> fst z"
          using Cons.prems(2,4) h True by (fastforce simp: set_insort_key dest: fst_mono_pair)
        show "?R \<noteq> {#} \<Longrightarrow> int (length ?h) = k" using len h by simp
      qed
      then obtain h' R' where *: "topk_stocks_loop items k ?h = Inr h'" "sorted h'" "int (length h') \<le> k"
           "mset h' + R' = mset ?h + ?R + mset (map prod.swap items)"
           "\<forall>y \<in># R'. \<forall>z \<in> set h'. fst y \<le> fst z"
           "R' \<noteq> {#} \<longrightarrow> int (length h') = k" by blast
      have "topk_stocks_loop (it # items) k h = Inr h'"
        using False True lt h *(1) by (simp add: it item0_def heappushpop_def)
      moreover have "mset h' + R' = mset h + R + mset (map prod.swap (it # items))"
        using *(4) h by (simp add: it)
      ultimately show ?thesis using * by blast
    next
      case nt: False
      let ?R = "R + {#(x, tk)#}"
      have "\<exists>h' R'. topk_stocks_loop items k h = Inr h' \<and> sorted h' \<and> int (length h') \<le> k
           \<and> mset h' + R' = mset h + ?R + mset (map prod.swap items)
           \<and> (\<forall>y \<in># R'. \<forall>z \<in> set h'. fst y \<le> fst z)
           \<and> (R' \<noteq> {#} \<longrightarrow> int (length h') = k)"
      proof (rule Cons.IH)
        show "0 < k" by fact
        show "sorted h" by fact
        show "int (length h) \<le> k" by fact
        show "\<forall>y \<in># ?R. \<forall>z \<in> set h. fst y \<le> fst z"
          using Cons.prems(2,4) h nt by (fastforce dest: fst_mono_pair)
        show "?R \<noteq> {#} \<Longrightarrow> int (length h) = k" using len by simp
      qed
      then obtain h' R' where *: "topk_stocks_loop items k h = Inr h'" "sorted h'" "int (length h') \<le> k"
           "mset h' + R' = mset h + ?R + mset (map prod.swap items)"
           "\<forall>y \<in># R'. \<forall>z \<in> set h'. fst y \<le> fst z"
           "R' \<noteq> {#} \<longrightarrow> int (length h') = k" by blast
      have "topk_stocks_loop (it # items) k h = Inr h'"
        using False nt h *(1) by (simp add: it item0_def)
      moreover have "mset h' + R' = mset h + R + mset (map prod.swap (it # items))"
        using *(4) h by (simp add: it)
      ultimately show ?thesis using * by blast
    qed
  qed
qed


lemma sorted_rev_uminus: "sorted (map uminus (ys::real list)) \<longleftrightarrow> sorted (rev ys)"
  by (simp add: sorted_map sorted_wrt_rev)

lemma scores_sort_by_score_reverse:
  "map snd (sort_by_score_reverse xs) = rev (sort (map snd xs))"
proof -
  let ?L = "sort_by_score_reverse xs"
  have "sorted (map (\<lambda>x. - snd x) ?L)"
    unfolding sort_by_score_reverse_def by (rule sorted_sort_key)
  then have "sorted (map uminus (map snd ?L))" by (simp add: comp_def)
  then have "sorted (rev (map snd ?L))" by (simp only: sorted_rev_uminus)
  moreover have "mset (rev (map snd ?L)) = mset (map snd xs)"
    by (simp add: sort_by_score_reverse_def)
  ultimately have "sort (map snd xs) = rev (map snd ?L)"
    by (rule properties_for_sort[rotated])
  then show ?thesis by simp
qed

lemma best_scores:
  fixes h :: "(real \<times> string) list"
  assumes "sorted h" "length h \<le> k"
    and "mset h + R = mset (map prod.swap items)"
    and "\<forall>y \<in># R. \<forall>z \<in> set h. fst y \<le> fst z"
    and "R \<noteq> {#} \<longrightarrow> length h = k"
  shows "map fst (rev h) = take k (rev (sort (map snd items)))"
proof -
  let ?A = "sorted_list_of_multiset (image_mset fst R)"
  let ?B = "map fst h"
  have "sorted ?B" using assms(1) by (rule sorted_map_fst)
  moreover have "\<forall>a \<in> set ?A. \<forall>b \<in> set ?B. a \<le> b" using assms(4) by auto
  ultimately have "sorted (?A @ ?B)" by (simp add: sorted_append)
  moreover have "mset (?A @ ?B) = mset (map snd items)"
  proof -
    have "mset (?A @ ?B) = image_mset fst (mset h + R)" by simp
    also have "\<dots> = image_mset fst (mset (map prod.swap items))" by (simp only: assms(3))
    also have "\<dots> = mset (map snd items)" by (simp add: multiset.map_comp comp_def)
    finally show ?thesis .
  qed
  ultimately have srt: "sort (map snd items) = ?A @ ?B" by (rule properties_for_sort[rotated])
  show ?thesis
  proof (cases "R = {#}")
    case True
    then show ?thesis using assms(2) by (simp add: srt rev_map)
  next
    case False
    then have "length h = k" using assms(5) by simp
    then show ?thesis by (simp add: srt rev_map)
  qed
qed

lemma topk_items_result:
  assumes "0 < k"
  shows "\<exists>h. topk_stocks_items items k = Inr (rev h) \<and> sorted h \<and> mset h \<subseteq># mset (map prod.swap items)
           \<and> map fst (rev h) = take (nat k) (rev (sort (map snd items)))"
proof -
  have "\<exists>h' R'. topk_stocks_loop items k [] = Inr h' \<and> sorted h' \<and> int (length h') \<le> k
           \<and> mset h' + R' = mset [] + {#} + mset (map prod.swap items)
           \<and> (\<forall>y \<in># R'. \<forall>z \<in> set h'. fst y \<le> fst z)
           \<and> (R' \<noteq> {#} \<longrightarrow> int (length h') = k)"
    by (rule topk_loop_invariant) (use assms in auto)
  then obtain h R where *: "topk_stocks_loop items k [] = Inr h" "sorted h" "int (length h) \<le> k"
      "mset h + R = mset (map prod.swap items)"
      "\<forall>y \<in># R. \<forall>z \<in> set h. fst y \<le> fst z" "R \<noteq> {#} \<longrightarrow> int (length h) = k"
    by auto
  have "map fst (rev h) = take (nat k) (rev (sort (map snd items)))"
    by (rule best_scores[OF *(2) _ *(4,5)]) (use * in auto)
  moreover have "topk_stocks_items items k = Inr (rev h)"
    using *(1,2) by (simp add: topk_stocks_items_def sorted_reverse_def sorted_sort_id)
  moreover have "mset h \<subseteq># mset (map prod.swap items)"
    using *(4) by (metis mset_subset_eq_add_left)
  ultimately show ?thesis using *(2) by blast
qed

text \<open>
  C1. Claimed: for every stream and every \<open>k\<close>, \<^verbatim>\<open>topk_stocks\<close> returns exactly the first \<open>k\<close>
  items of the stream sorted descending by score, as (ticker, score) pairs. What holds, for
  \<open>k \<ge> 1\<close> (or an empty stream): the code returns normally; every returned entry is an item of
  the stream; the scores of the entries are, in order, the scores of the first \<open>k\<close> items of
  the stream sorted descending by score; and when no two items of the stream have the same
  score, the entries, each read as its ticker and its score, are exactly those first \<open>k\<close>
  items. The entries are held as tuples \<open>(total_return, ticker)\<close>.
\<close>

theorem topk_stocks_items_selects_best:
  assumes "0 < k \<or> stream = []"
  shows "\<exists>res. topk_stocks_items stream k = Inr res
           \<and> mset (map prod.swap res) \<subseteq># mset stream
           \<and> map fst res = map snd (sort_descending_then_slice stream k)
           \<and> (distinct (map snd stream) \<longrightarrow>
                 map prod.swap res = sort_descending_then_slice stream k)"
proof (cases "stream = []")
  case True
  then show ?thesis
    by (simp add: topk_stocks_items_def sorted_reverse_def sort_descending_then_slice_def
        slice_to_def sort_by_score_reverse_def)
next
  case False
  then have k: "0 < k" using assms by simp
  from topk_items_result[OF k, of stream] obtain h where
    h: "topk_stocks_items stream k = Inr (rev h)" "mset h \<subseteq># mset (map prod.swap stream)"
       "map fst (rev h) = take (nat k) (rev (sort (map snd stream)))" by blast
  let ?T = "sort_descending_then_slice stream k"
  let ?res = "map prod.swap (rev h)"
  have T: "?T = take (nat k) (sort_by_score_reverse stream)"
    using k by (simp add: sort_descending_then_slice_def slice_to_def)
  have scores: "map snd ?T = take (nat k) (rev (sort (map snd stream)))"
    by (simp add: T take_map[symmetric] scores_sort_by_score_reverse)
  have sub: "mset ?res \<subseteq># mset stream"
  proof -
    have "image_mset prod.swap (mset h) \<subseteq># image_mset prod.swap (mset (map prod.swap stream))"
      using h(2) by (rule image_mset_subseteq_mono)
    then show ?thesis by (simp add: multiset.map_comp comp_def)
  qed
  have "?res = ?T" if d: "distinct (map snd stream)"
  proof -
    have eq: "map snd ?res = map snd ?T" using h(3) scores by (simp add: comp_def)
    have "set ?T \<subseteq> set stream"
      unfolding T using set_take_subset[of "nat k" "sort_by_score_reverse stream"]
      by (simp add: sort_by_score_reverse_def)
    moreover have "set ?res \<subseteq> set stream" using set_mset_mono[OF sub] by simp
    moreover have "inj_on snd (set stream)" using d by (simp add: distinct_map)
    ultimately have "inj_on snd (set ?res \<union> set ?T)" by (meson Un_least inj_on_subset)
    then show ?thesis using eq by (simp only: inj_on_map_eq_map)
  qed
  moreover have "map fst (rev h) = map snd ?T" using h(3) scores by simp
  ultimately show ?thesis using h(1) sub by blast
qed

theorem topk_stocks_items_selects_best_witness:
  "(0 < (2::int) \<or> [(''AAPL'', 5::real), (''MSFT'', 3), (''GOOG'', 8), (''AMZN'', 1)] = [])
   \<and> distinct (map snd [(''AAPL'', 5::real), (''MSFT'', 3), (''GOOG'', 8), (''AMZN'', 1)])
   \<and> (\<exists>res. topk_stocks_items [(''AAPL'', 5), (''MSFT'', 3), (''GOOG'', 8), (''AMZN'', 1)] 2 = Inr res
         \<and> map prod.swap res = [(''GOOG'', 8), (''AAPL'', 5)])"
proof -
  let ?ex = "[(''AAPL'', 5::real), (''MSFT'', 3), (''GOOG'', 8), (''AMZN'', 1)]"
  have d: "distinct (map snd ?ex)" by simp
  have s: "sort_descending_then_slice ?ex 2 = [(''GOOG'', 8), (''AAPL'', 5)]"
    by (simp add: sort_descending_then_slice_def slice_to_def sort_by_score_reverse_def)
  from topk_stocks_items_selects_best[of 2 ?ex] obtain res where
    r: "topk_stocks_items ?ex 2 = Inr res"
    "distinct (map snd ?ex) \<longrightarrow> map prod.swap res = sort_descending_then_slice ?ex 2"
    by auto
  from r(2) d have "map prod.swap res = sort_descending_then_slice ?ex 2" by (rule mp)
  then have "map prod.swap res = [(''GOOG'', 8), (''AAPL'', 5)]" by (simp only: s)
  with r(1) have "topk_stocks_items ?ex 2 = Inr res
      \<and> map prod.swap res = [(''GOOG'', 8), (''AAPL'', 5)]" by (rule conjI)
  then have "\<exists>res. topk_stocks_items ?ex 2 = Inr res
      \<and> map prod.swap res = [(''GOOG'', 8), (''AAPL'', 5)]" by (rule exI[of _ res])
  moreover have "0 < (2::int) \<or> ?ex = []" by simp
  ultimately show ?thesis using d by (intro conjI)
qed

text \<open>
  The entries as the code returns them on that example: the return first, the ticker
  second, where the docstring of \<^verbatim>\<open>topk_stocks\<close> announces tuples \<open>(ticker, total_return)\<close>.
\<close>

lemma topk_example_tuples:
  "topk_stocks_items [(''AAPL'', 5), (''MSFT'', 3), (''GOOG'', 8), (''AMZN'', 1)] 2
     = Inr [(8, ''GOOG''), (5, ''AAPL'')]"
  by (simp add: topk_stocks_items_def item0_def heappush_def heappushpop_def sorted_reverse_def)

text \<open>
  With equal scores the claim fails: on AAPL 5, MSFT 5, GOOG 8, TSLA 5 and \<open>k = 2\<close> the heap
  evicts \<open>(5, AAPL)\<close>, its smallest tuple, when GOOG arrives, and does not admit TSLA, whose
  score is not greater than the smallest in the heap; the code returns GOOG and MSFT. Sorting
  the stream descending by score and cutting after two items gives GOOG and AAPL (and
  sorting the tuples \<open>(score, ticker)\<close> descending would give GOOG and TSLA).
\<close>

theorem ties_break_sort_then_slice:
  "topk_stocks_items [(''AAPL'', 5), (''MSFT'', 5), (''GOOG'', 8), (''TSLA'', 5)] 2
     = Inr [(8, ''GOOG''), (5, ''MSFT'')]
   \<and> sort_descending_then_slice [(''AAPL'', 5), (''MSFT'', 5), (''GOOG'', 8), (''TSLA'', 5)] 2
     = [(''GOOG'', 8), (''AAPL'', 5)]
   \<and> take 2 (sorted_reverse (map prod.swap [(''AAPL'', 5::real), (''MSFT'', 5), (''GOOG'', 8), (''TSLA'', 5)]))
     = [(8, ''GOOG''), (5, ''TSLA'')]
   \<and> \<not> (\<exists>res. topk_stocks_items [(''AAPL'', 5), (''MSFT'', 5), (''GOOG'', 8), (''TSLA'', 5)] 2 = Inr res
         \<and> map prod.swap res
             = sort_descending_then_slice [(''AAPL'', 5), (''MSFT'', 5), (''GOOG'', 8), (''TSLA'', 5)] 2)"
  by (simp add: topk_stocks_items_def item0_def heappush_def heappushpop_def sorted_reverse_def
      sort_descending_then_slice_def slice_to_def sort_by_score_reverse_def numeral_2_eq_2)

section \<open>The graph builder\<close>

lemma map_of_fold_update:
  "map_of (fold (\<lambda>tk g. AList.update tk [] g) ts g0) t
     = (if t \<in> set ts then Some [] else map_of g0 t)"
  by (induction ts arbitrary: g0) (auto simp: update_conv')

lemma edge_empty_graph: "edge (empty_graph ts) s t = None"
  by (simp add: edge_def empty_graph_def map_of_fold_update)

lemma keys_empty_graph: "fst ` set (empty_graph ts) = set ts"
proof -
  have "dom (map_of (empty_graph ts)) = set ts"
    by (auto simp: empty_graph_def map_of_fold_update dom_def)
  then show ?thesis by (simp add: dom_map_of_conv_image_fst)
qed

lemma set_edge_known:
  assumes "a \<in> fst ` set g"
  shows "\<exists>g'. set_edge g a b w = Inr g' \<and> fst ` set g' = fst ` set g
          \<and> (\<forall>s t. edge g' s t = (if s = a \<and> t = b then Some w else edge g s t))"
proof -
  from assms have "a \<in> dom (map_of g)" by (simp only: dom_map_of_conv_image_fst)
  then obtain nb where nb: "map_of g a = Some nb" by auto
  let ?g = "AList.update a (AList.update b w nb) g"
  have "set_edge g a b w = Inr ?g" by (simp add: set_edge_def nb)
  moreover have "fst ` set ?g = fst ` set g"
    using assms by (auto simp: AList.dom_update)
  moreover have "\<forall>s t. edge ?g s t = (if s = a \<and> t = b then Some w else edge g s t)"
    using nb by (simp add: edge_def update_conv')
  ultimately show ?thesis by blast
qed

lemma inner_loop:
  assumes "ti \<in> fst ` set g" "distinct (map snd js)"
    and "\<forall>(j, tj) \<in> set js. edge g ti tj = None"
    and "\<forall>(j, tj) \<in> set js. i < j \<longrightarrow> iloc m i j = Inr (cells m ! i ! j)"
  shows "\<exists>g'. for_each js (build_graph_step m thr (i, ti)) g = Inr g'
          \<and> fst ` set g' = fst ` set g
          \<and> edges g' = edges g \<union> new_edges m thr (i, ti) js"
  using assms
proof (induction js arbitrary: g)
  case Nil
  then show ?case by (simp add: new_edges_def)
next
  case (Cons p js)
  obtain j tj where p: "p = (j, tj)" by (cases p)
  let ?add = "i < j \<and> \<bar>cells m ! i ! j\<bar> > thr"
  have "\<exists>g1. build_graph_step m thr (i, ti) p g = Inr g1 \<and> fst ` set g1 = fst ` set g
          \<and> (\<forall>s t. edge g1 s t = (if ?add \<and> s = ti \<and> t = tj then Some \<bar>cells m ! i ! j\<bar> else edge g s t))"
  proof -
    have ilo: "i < j \<Longrightarrow> iloc m i j = Inr (cells m ! i ! j)" using Cons.prems(4) p by auto
    from set_edge_known[OF Cons.prems(1), of tj "\<bar>cells m ! i ! j\<bar>"]
    obtain g2 where g2: "set_edge g ti tj \<bar>cells m ! i ! j\<bar> = Inr g2" "fst ` set g2 = fst ` set g"
      "\<forall>s t. edge g2 s t = (if s = ti \<and> t = tj then Some \<bar>cells m ! i ! j\<bar> else edge g s t)"
      by blast
    show ?thesis
    proof (cases ?add)
      case True
      then have "build_graph_step m thr (i, ti) p g = Inr g2"
        using ilo g2(1) by (simp add: build_graph_step_def p)
      then show ?thesis using g2(2,3) True by simp
    next
      case False
      then have "build_graph_step m thr (i, ti) p g = Inr g"
        using ilo by (cases "i < j") (simp_all add: build_graph_step_def p)
      then show ?thesis using False by auto
    qed
  qed
  then obtain g1 where g1: "build_graph_step m thr (i, ti) p g = Inr g1" "fst ` set g1 = fst ` set g"
     "\<forall>s t. edge g1 s t = (if ?add \<and> s = ti \<and> t = tj then Some \<bar>cells m ! i ! j\<bar> else edge g s t)"
    by blast
  have "\<exists>g'. for_each js (build_graph_step m thr (i, ti)) g1 = Inr g'
          \<and> fst ` set g' = fst ` set g1
          \<and> edges g' = edges g1 \<union> new_edges m thr (i, ti) js"
  proof (rule Cons.IH)
    show "ti \<in> fst ` set g1" using g1(2) Cons.prems(1) by simp
    show "distinct (map snd js)" using Cons.prems(2) by simp
    show "\<forall>(j', tj') \<in> set js. edge g1 ti tj' = None"
    proof (clarify)
      fix j' tj' assume mem: "(j', tj') \<in> set js"
      then have "tj' \<in> snd ` set js" by force
      then have "tj' \<noteq> tj" using Cons.prems(2) p by auto
      moreover have "edge g ti tj' = None" using Cons.prems(3) mem by auto
      ultimately show "edge g1 ti tj' = None" using g1(3) by simp
    qed
    show "\<forall>(j, tj) \<in> set js. i < j \<longrightarrow> iloc m i j = Inr (cells m ! i ! j)"
      using Cons.prems(4) by simp
  qed
  then obtain g' where g': "for_each js (build_graph_step m thr (i, ti)) g1 = Inr g'"
     "fst ` set g' = fst ` set g1" "edges g' = edges g1 \<union> new_edges m thr (i, ti) js" by blast
  have "edge g ti tj = None" using Cons.prems(3) p by simp
  then have "edges g1 = edges g \<union> new_edges m thr (i, ti) [p]"
    using g1(3) by (auto simp: edges_def new_edges_def p split: if_splits)
  moreover have "new_edges m thr (i, ti) (p # js) = new_edges m thr (i, ti) [p] \<union> new_edges m thr (i, ti) js"
    by (auto simp: new_edges_def)
  ultimately have "edges g' = edges g \<union> new_edges m thr (i, ti) (p # js)"
    using g'(3) by auto
  moreover have "for_each (p # js) (build_graph_step m thr (i, ti)) g = Inr g'"
    using g1(1) g'(1) by simp
  ultimately show ?case using g'(2) g1(2) by auto
qed


lemma outer_loop:
  assumes "distinct (map snd srcs)" "distinct (map snd js)"
    and "snd ` set srcs \<subseteq> fst ` set g"
    and "\<forall>(i, ti) \<in> set srcs. \<forall>(j, tj) \<in> set js. edge g ti tj = None"
    and "\<forall>(i, ti) \<in> set srcs. \<forall>(j, tj) \<in> set js. i < j \<longrightarrow> iloc m i j = Inr (cells m ! i ! j)"
  shows "\<exists>g'. for_each srcs (\<lambda>src g. for_each js (build_graph_step m thr src) g) g = Inr g'
          \<and> fst ` set g' = fst ` set g
          \<and> edges g' = edges g \<union> (\<Union>src \<in> set srcs. new_edges m thr src js)"
  using assms
proof (induction srcs arbitrary: g)
  case Nil
  then show ?case by simp
next
  case (Cons p srcs)
  obtain i ti where p: "p = (i, ti)" by (cases p)
  have "\<exists>g'. for_each js (build_graph_step m thr (i, ti)) g = Inr g'
          \<and> fst ` set g' = fst ` set g
          \<and> edges g' = edges g \<union> new_edges m thr (i, ti) js"
  proof (rule inner_loop)
    show "ti \<in> fst ` set g" using Cons.prems(3) p by auto
    show "distinct (map snd js)" by fact
    show "\<forall>(j, tj) \<in> set js. edge g ti tj = None" using Cons.prems(4) p by auto
    show "\<forall>(j, tj) \<in> set js. i < j \<longrightarrow> iloc m i j = Inr (cells m ! i ! j)"
      using Cons.prems(5) p by auto
  qed
  then obtain g1 where g1: "for_each js (build_graph_step m thr (i, ti)) g = Inr g1"
    "fst ` set g1 = fst ` set g" "edges g1 = edges g \<union> new_edges m thr (i, ti) js" by blast
  have "\<exists>g'. for_each srcs (\<lambda>src g. for_each js (build_graph_step m thr src) g) g1 = Inr g'
          \<and> fst ` set g' = fst ` set g1
          \<and> edges g' = edges g1 \<union> (\<Union>src \<in> set srcs. new_edges m thr src js)"
  proof (rule Cons.IH)
    show "distinct (map snd srcs)" using Cons.prems(1) by simp
    show "distinct (map snd js)" by fact
    show "snd ` set srcs \<subseteq> fst ` set g1" using Cons.prems(3) g1(2) by auto
    show "\<forall>(i', ti') \<in> set srcs. \<forall>(j, tj) \<in> set js. edge g1 ti' tj = None"
    proof (clarify)
      fix i' ti' j tj assume mem: "(i', ti') \<in> set srcs" "(j, tj) \<in> set js"
      then have "ti' \<in> snd ` set srcs" by force
      then have ne: "ti' \<noteq> ti" using Cons.prems(1) p by auto
      have none: "edge g ti' tj = None" using Cons.prems(4) mem by auto
      show "edge g1 ti' tj = None"
      proof (rule ccontr)
        assume "edge g1 ti' tj \<noteq> None"
        then obtain w where "(ti', tj, w) \<in> edges g1" by (auto simp: edges_def)
        then have "(ti', tj, w) \<in> edges g \<or> (ti', tj, w) \<in> new_edges m thr (i, ti) js"
          using g1(3) by auto
        then show False using ne none by (auto simp: edges_def new_edges_def)
      qed
    qed
    show "\<forall>(i, ti) \<in> set srcs. \<forall>(j, tj) \<in> set js. i < j \<longrightarrow> iloc m i j = Inr (cells m ! i ! j)"
      using Cons.prems(5) by simp
  qed
  then obtain g' where g': "for_each srcs (\<lambda>src g. for_each js (build_graph_step m thr src) g) g1 = Inr g'"
    "fst ` set g' = fst ` set g1"
    "edges g' = edges g1 \<union> (\<Union>src \<in> set srcs. new_edges m thr src js)" by blast
  have "for_each (p # srcs) (\<lambda>src g. for_each js (build_graph_step m thr src) g) g = Inr g'"
    using g1(1) g'(1) by (simp add: p)
  moreover have "edges g' = edges g \<union> (\<Union>src \<in> set (p # srcs). new_edges m thr src js)"
    using g'(3) g1(3) by (auto simp: p)
  ultimately show ?case using g'(2) g1(2) by auto
qed

lemma edges_build_graph:
  assumes "distinct tickers" "matrix_covers m tickers"
  shows "\<exists>g. build_graph m tickers thr = Inr g \<and> fst ` set g = set tickers
          \<and> edges g = {(tickers ! i, tickers ! j, \<bar>cells m ! i ! j\<bar>) | i j.
                i < j \<and> j < length tickers \<and> \<bar>cells m ! i ! j\<bar> > thr}"
proof -
  let ?E = "enumerate 0 tickers"
  have "\<exists>g'. for_each ?E (\<lambda>src g. for_each ?E (build_graph_step m thr src) g) (empty_graph tickers) = Inr g'
          \<and> fst ` set g' = fst ` set (empty_graph tickers)
          \<and> edges g' = edges (empty_graph tickers) \<union> (\<Union>src \<in> set ?E. new_edges m thr src ?E)"
  proof (rule outer_loop)
    show "distinct (map snd ?E)" using assms(1) by simp
    then show "distinct (map snd ?E)" .
    show "snd ` set ?E \<subseteq> fst ` set (empty_graph tickers)"
      by (auto simp: keys_empty_graph in_set_enumerate_eq)
    show "\<forall>(i, ti) \<in> set ?E. \<forall>(j, tj) \<in> set ?E. edge (empty_graph tickers) ti tj = None"
      by (simp add: edge_empty_graph)
    show "\<forall>(i, ti) \<in> set ?E. \<forall>(j, tj) \<in> set ?E. i < j \<longrightarrow> iloc m i j = Inr (cells m ! i ! j)"
    proof (clarify)
      fix i ti j tj
      assume "(i, ti) \<in> set ?E" "(j, tj) \<in> set ?E" "i < j"
      then have "i < length tickers" "j < length tickers" by (auto simp: in_set_enumerate_eq)
      then have "i < length (cells m)" "j < length (cells m ! i)"
        using assms(2) unfolding matrix_covers_def by (auto dest: spec[of _ i])
      then show "iloc m i j = Inr (cells m ! i ! j)" by (simp add: iloc_def)
    qed
  qed
  moreover have "edges (empty_graph tickers) = {}"
    by (simp add: edges_def edge_empty_graph)
  ultimately obtain g where g: "build_graph m tickers thr = Inr g" "fst ` set g = set tickers"
     "edges g = (\<Union>src \<in> set ?E. new_edges m thr src ?E)"
    unfolding build_graph_def keys_empty_graph by auto
  have "(\<Union>src \<in> set ?E. new_edges m thr src ?E) = {(tickers ! i, tickers ! j, \<bar>cells m ! i ! j\<bar>) | i j.
                i < j \<and> j < length tickers \<and> \<bar>cells m ! i ! j\<bar> > thr}" (is "?L = ?S")
  proof (intro equalityI subsetI)
    fix x assume "x \<in> ?L"
    then obtain i ti j tj where "(i, ti) \<in> set ?E" "(j, tj) \<in> set ?E"
      "x = (ti, tj, \<bar>cells m ! i ! j\<bar>)" "i < j" "\<bar>cells m ! i ! j\<bar> > thr"
      by (auto simp: new_edges_def)
    then show "x \<in> ?S" by (auto simp: in_set_enumerate_eq)
  next
    fix x assume "x \<in> ?S"
    then obtain i j where *: "x = (tickers ! i, tickers ! j, \<bar>cells m ! i ! j\<bar>)"
      "i < j" "j < length tickers" "\<bar>cells m ! i ! j\<bar> > thr" by auto
    then have E: "(i, tickers ! i) \<in> set ?E" "(j, tickers ! j) \<in> set ?E"
      by (auto simp: in_set_enumerate_eq)
    have "x \<in> new_edges m thr (i, tickers ! i) ?E"
      unfolding new_edges_def using * E(2) by force
    then show "x \<in> ?L" using E(1) by blast
  qed
  then show ?thesis using g by auto
qed

text \<open>
  C2. For a ticker list without duplicates and a matrix that has a cell for every pair of
  its positions, \<^verbatim>\<open>_build_graph\<close> returns a graph in which, for all positions \<open>i\<close> and \<open>j\<close>,
  there is an edge from \<open>tickers[i]\<close> to \<open>tickers[j]\<close> exactly when \<open>i < j\<close> and
  \<open>|m[i][j]| > threshold\<close>, and its weight is \<open>|m[i][j]|\<close>; so no edge has a source at or after
  its target (no self-loop, no reverse edge). The nodes of the graph are the tickers of the
  list, and every edge joins two of them.
\<close>

theorem build_graph_edges_by_position:
  assumes "distinct tickers" "matrix_covers m tickers"
  shows "\<exists>g. build_graph m tickers thr = Inr g
          \<and> fst ` set g = set tickers
          \<and> (\<forall>i < length tickers. \<forall>j < length tickers.
                edge g (tickers ! i) (tickers ! j)
                  = (if i < j \<and> \<bar>cells m ! i ! j\<bar> > thr then Some \<bar>cells m ! i ! j\<bar> else None))
          \<and> (\<forall>s t. edge g s t \<noteq> None \<longrightarrow> s \<in> set tickers \<and> t \<in> set tickers)"
proof -
  from edges_build_graph[OF assms, of thr] obtain g where
    g: "build_graph m tickers thr = Inr g"
       "edges g = {(tickers ! i, tickers ! j, \<bar>cells m ! i ! j\<bar>) | i j.
                i < j \<and> j < length tickers \<and> \<bar>cells m ! i ! j\<bar> > thr}"
    and nodes: "fst ` set g = set tickers" by blast
  have mem: "edge g s t = Some w \<longleftrightarrow> (\<exists>i j. s = tickers ! i \<and> t = tickers ! j \<and> w = \<bar>cells m ! i ! j\<bar>
                \<and> i < j \<and> j < length tickers \<and> \<bar>cells m ! i ! j\<bar> > thr)" for s t w
  proof -
    have "edge g s t = Some w \<longleftrightarrow> (s, t, w) \<in> edges g" by (simp add: edges_def)
    then show ?thesis unfolding g(2) by auto
  qed
  have "edge g (tickers ! i) (tickers ! j)
          = (if i < j \<and> \<bar>cells m ! i ! j\<bar> > thr then Some \<bar>cells m ! i ! j\<bar> else None)"
    if ij: "i < length tickers" "j < length tickers" for i j
  proof (cases "i < j \<and> \<bar>cells m ! i ! j\<bar> > thr")
    case True
    then have "edge g (tickers ! i) (tickers ! j) = Some \<bar>cells m ! i ! j\<bar>"
      using ij by (subst mem) blast
    then show ?thesis using True by simp
  next
    case False
    have "edge g (tickers ! i) (tickers ! j) \<noteq> Some w" for w
    proof
      assume "edge g (tickers ! i) (tickers ! j) = Some w"
      then obtain i' j' where *: "tickers ! i = tickers ! i'" "tickers ! j = tickers ! j'"
        "i' < j'" "j' < length tickers" "\<bar>cells m ! i' ! j'\<bar> > thr" using mem by blast
      then have "i = i'" "j = j'" using assms(1) ij by (auto simp: nth_eq_iff_index_eq)
      then show False using * False by simp
    qed
    then have "edge g (tickers ! i) (tickers ! j) = None" by (cases "edge g (tickers ! i) (tickers ! j)") auto
    then show ?thesis using False by simp
  qed
  moreover have "s \<in> set tickers \<and> t \<in> set tickers" if "edge g s t \<noteq> None" for s t
  proof -
    from that obtain w where "edge g s t = Some w" by auto
    then show ?thesis using mem by (metis dual_order.strict_trans nth_mem)
  qed
  ultimately show ?thesis using g(1) nodes by blast
qed

theorem build_graph_edges_by_position_witness:
  "distinct [''A'', ''B'', ''C''] \<and> matrix_covers example_matrix [''A'', ''B'', ''C'']
   \<and> (\<exists>g. build_graph example_matrix [''A'', ''B'', ''C''] (1/2) = Inr g
         \<and> edge g ''A'' ''B'' = Some 1 \<and> edge g ''A'' ''C'' = Some 1 \<and> edge g ''B'' ''C'' = Some 1
         \<and> edge g ''B'' ''A'' = None \<and> edge g ''C'' ''A'' = None \<and> edge g ''A'' ''A'' = None)"
proof -
  let ?T = "[''A'', ''B'', ''C'']"
  have d: "distinct ?T" by simp
  have c: "matrix_covers example_matrix ?T"
    by (simp add: matrix_covers_def example_matrix_def less_Suc_eq all_conj_distrib numeral_3_eq_3)
  from build_graph_edges_by_position[OF d c, of "1/2"] obtain g where
    g: "build_graph example_matrix ?T (1/2) = Inr g"
    and e: "\<forall>i < length ?T. \<forall>j < length ?T.
                edge g (?T ! i) (?T ! j)
                  = (if i < j \<and> \<bar>cells example_matrix ! i ! j\<bar> > 1/2
                     then Some \<bar>cells example_matrix ! i ! j\<bar> else None)"
    by blast
  have e': "i < 3 \<Longrightarrow> j < 3 \<Longrightarrow> edge g (?T ! i) (?T ! j)
                  = (if i < j \<and> \<bar>cells example_matrix ! i ! j\<bar> > 1/2
                     then Some \<bar>cells example_matrix ! i ! j\<bar> else None)" for i j
    using e by simp
  have "edge g ''A'' ''B'' = Some 1" using e'[of 0 1] by (simp add: example_matrix_def)
  moreover have "edge g ''A'' ''C'' = Some 1" using e'[of 0 2] by (simp add: example_matrix_def)
  moreover have "edge g ''B'' ''C'' = Some 1" using e'[of 1 2] by (simp add: example_matrix_def)
  moreover have "edge g ''B'' ''A'' = None" using e'[of 1 0] by (simp add: example_matrix_def)
  moreover have "edge g ''C'' ''A'' = None" using e'[of 2 0] by (simp add: example_matrix_def)
  moreover have "edge g ''A'' ''A'' = None" using e'[of 0 0] by (simp add: example_matrix_def)
  ultimately have "build_graph example_matrix ?T (1/2) = Inr g
         \<and> edge g ''A'' ''B'' = Some 1 \<and> edge g ''A'' ''C'' = Some 1 \<and> edge g ''B'' ''C'' = Some 1
         \<and> edge g ''B'' ''A'' = None \<and> edge g ''C'' ''A'' = None \<and> edge g ''A'' ''A'' = None"
    using g by (intro conjI)
  then have "\<exists>g. build_graph example_matrix ?T (1/2) = Inr g
         \<and> edge g ''A'' ''B'' = Some 1 \<and> edge g ''A'' ''C'' = Some 1 \<and> edge g ''B'' ''C'' = Some 1
         \<and> edge g ''B'' ''A'' = None \<and> edge g ''C'' ''A'' = None \<and> edge g ''A'' ''A'' = None"
    by (rule exI[of _ g])
  then show ?thesis using d c by (intro conjI)
qed

section \<open>Neighbour queries on the graph\<close>

lemma pop_similar_take:
  "pop_similar heap n acc
     = Inr (acc @ map (\<lambda>popped. \<lparr>ticker = snd popped, correlation_strength = - fst popped\<rparr>)
                    (take (nat (n - int (length acc))) heap))"
proof (induction heap arbitrary: acc)
  case Nil
  show ?case by (subst pop_similar.simps) simp
next
  case (Cons m r)
  show ?case
  proof (cases "int (length acc) < n")
    case True
    then obtain d where d: "nat (n - int (length acc)) = Suc d" "nat (n - (1 + int (length acc))) = d"
      by (cases "nat (n - int (length acc))") auto
    show ?thesis
      using True d by (subst pop_similar.simps) (simp add: heappop_def Cons.IH)
  next
    case False
    then show ?thesis by (subst pop_similar.simps) simp
  qed
qed

lemma push_outgoing_keeps:
  "fold push_outgoing xs (h, v) = (h', v') \<Longrightarrow> t \<in> v \<Longrightarrow> t \<notin> snd ` set h
     \<Longrightarrow> t \<in> v' \<and> t \<notin> snd ` set h'"
proof (induction xs arbitrary: h v)
  case Nil
  then show ?case by simp
next
  case (Cons x xs)
  obtain nb w where x: "x = (nb, w)" by (cases x)
  obtain h1 v1 where s: "push_outgoing x (h, v) = (h1, v1)" by (cases "push_outgoing x (h, v)")
  then have "t \<in> v1 \<and> t \<notin> snd ` set h1"
    using Cons.prems(2,3) by (auto simp: push_outgoing_def x heappush_def set_insort_key split: if_splits)
  moreover have "fold push_outgoing xs (h1, v1) = (h', v')" using Cons.prems(1) s by simp
  ultimately show ?case using Cons.IH by blast
qed

lemma push_incoming_keeps:
  "fold (push_incoming t) xs (h, v) = (h', v') \<Longrightarrow> t \<in> v \<Longrightarrow> t \<notin> snd ` set h
     \<Longrightarrow> t \<in> v' \<and> t \<notin> snd ` set h'"
proof (induction xs arbitrary: h v)
  case Nil
  then show ?case by simp
next
  case (Cons x xs)
  obtain src nbs where x: "x = (src, nbs)" by (cases x)
  obtain h1 v1 where s: "push_incoming t x (h, v) = (h1, v1)" by (cases "push_incoming t x (h, v)")
  then have "t \<in> v1 \<and> t \<notin> snd ` set h1"
    using Cons.prems(2,3)
    by (auto simp: push_incoming_def x heappush_def set_insort_key split: if_splits option.splits)
  moreover have "fold (push_incoming t) xs (h1, v1) = (h', v')" using Cons.prems(1) s by simp
  ultimately show ?case using Cons.IH by blast
qed

lemma similar_of_total: "\<exists>l. similar_of g t n = Inr l"
  by (auto simp: similar_of_def pop_similar_take split: option.splits prod.splits)

lemma similar_of_unknown: "t \<notin> fst ` set g \<Longrightarrow> similar_of g t n = Inr []"
proof -
  assume "t \<notin> fst ` set g"
  then have "map_of g t = None" by (simp add: map_of_eq_None_iff)
  then show ?thesis by (simp add: similar_of_def)
qed

lemma similar_of_not_self:
  assumes "similar_of g t n = Inr l"
  shows "t \<notin> ticker ` set l"
proof (cases "map_of g t")
  case None
  then show ?thesis using assms by (auto simp: similar_of_def)
next
  case (Some outgoing)
  obtain h1 v1 where a: "fold push_outgoing outgoing ([], {t}) = (h1, v1)"
    by (cases "fold push_outgoing outgoing ([], {t})")
  obtain h2 v2 where b: "fold (push_incoming t) g (h1, v1) = (h2, v2)"
    by (cases "fold (push_incoming t) g (h1, v1)")
  have "t \<in> v1 \<and> t \<notin> snd ` set h1" using push_outgoing_keeps[OF a] by simp
  then have h2: "t \<notin> snd ` set h2" using push_incoming_keeps[OF b] by simp
  have "l = map (\<lambda>popped. \<lparr>ticker = snd popped, correlation_strength = - fst popped\<rparr>)
                    (take (nat n) h2)"
    using assms Some a b by (simp add: similar_of_def pop_similar_take)
  then have "ticker ` set l \<subseteq> snd ` set h2"
    using set_take_subset[of "nat n" h2] by force
  then show ?thesis using h2 by blast
qed

lemma get_similar_stocks_loop:
  "\<exists>results'. for_each tickers
       (\<lambda>tk results.
          case similar_of g tk n of
            Inl e \<Rightarrow> Inl e
          | Inr similar_stocks \<Rightarrow> Inr (AList.update tk similar_stocks results))
       results = Inr results'
     \<and> fst ` set results' = fst ` set results \<union> set tickers
     \<and> (\<forall>t. map_of results' t = (if t \<in> set tickers then Some (projr (similar_of g t n)) else map_of results t))"
proof (induction tickers arbitrary: results)
  case Nil
  then show ?case by simp
next
  case (Cons tk tickers)
  obtain l where l: "similar_of g tk n = Inr l" using similar_of_total by blast
  let ?r = "AList.update tk l results"
  from Cons.IH[of ?r] obtain results' where r: "for_each tickers
       (\<lambda>tk results.
          case similar_of g tk n of
            Inl e \<Rightarrow> Inl e
          | Inr similar_stocks \<Rightarrow> Inr (AList.update tk similar_stocks results))
       ?r = Inr results'"
     "fst ` set results' = fst ` set ?r \<union> set tickers"
     "\<forall>t. map_of results' t = (if t \<in> set tickers then Some (projr (similar_of g t n)) else map_of ?r t)"
    by blast
  have "fst ` set results' = fst ` set results \<union> set (tk # tickers)"
    using r(2) by (auto simp: AList.dom_update)
  moreover have "\<forall>t. map_of results' t = (if t \<in> set (tk # tickers) then Some (projr (similar_of g t n)) else map_of results t)"
    using r(3) l by (auto simp: update_conv')
  moreover have "for_each (tk # tickers)
       (\<lambda>tk results.
          case similar_of g tk n of
            Inl e \<Rightarrow> Inl e
          | Inr similar_stocks \<Rightarrow> Inr (AList.update tk similar_stocks results))
       results = Inr results'"
    using r(1) l by simp
  ultimately show ?case by blast
qed

lemma get_similar_stocks_entries:
  "\<exists>results. get_similar_stocks self tickers n = Inr results
     \<and> fst ` set results = set tickers
     \<and> (\<forall>t \<in> set tickers. \<exists>l. similar_of (graph self) t n = Inr l \<and> map_of results t = Some l)"
proof -
  from get_similar_stocks_loop[of tickers "graph self" n "[]"] obtain results where
    r: "get_similar_stocks self tickers n = Inr results" "fst ` set results = set tickers"
       "\<forall>t. map_of results t = (if t \<in> set tickers then Some (projr (similar_of (graph self) t n)) else None)"
    unfolding get_similar_stocks_def by auto
  have "\<exists>l. similar_of (graph self) t n = Inr l \<and> map_of results t = Some l" if "t \<in> set tickers" for t
  proof -
    obtain l where "similar_of (graph self) t n = Inr l" using similar_of_total by blast
    then show ?thesis using r(3) that by simp
  qed
  then show ?thesis using r(1,2) by blast
qed

text \<open>
  C10. For every graph, every list of tickers and every \<open>n\<close>, \<^verbatim>\<open>get_similar_stocks\<close> returns
  normally; the keys of its result are exactly the input tickers; and the list of a ticker
  never contains that ticker.
\<close>

theorem similar_stocks_cover_input_without_self:
  "\<exists>results. get_similar_stocks self tickers n = Inr results
     \<and> fst ` set results = set tickers
     \<and> (\<forall>t \<in> set tickers. \<exists>l. map_of results t = Some l \<and> t \<notin> ticker ` set l)"
proof -
  from get_similar_stocks_entries[of self tickers n] obtain results where
    r: "get_similar_stocks self tickers n = Inr results" "fst ` set results = set tickers"
       "\<forall>t \<in> set tickers. \<exists>l. similar_of (graph self) t n = Inr l \<and> map_of results t = Some l"
    by blast
  have "\<exists>l. map_of results t = Some l \<and> t \<notin> ticker ` set l" if "t \<in> set tickers" for t
  proof -
    from r(3) that obtain l where
      l: "similar_of (graph self) t n = Inr l" "map_of results t = Some l" by blast
    from similar_of_not_self[OF l(1)] l(2) show ?thesis by simp
  qed
  then have "\<forall>t \<in> set tickers. \<exists>l. map_of results t = Some l \<and> t \<notin> ticker ` set l" by blast
  with r(1,2) have "get_similar_stocks self tickers n = Inr results
     \<and> fst ` set results = set tickers
     \<and> (\<forall>t \<in> set tickers. \<exists>l. map_of results t = Some l \<and> t \<notin> ticker ` set l)" by simp
  then show ?thesis by (rule exI[of _ results])
qed

text \<open>
  C5. A ticker that is not a column of the matrix makes \<^verbatim>\<open>get_topk_similar_stocks\<close> raise
  \<^verbatim>\<open>ValueError("Ticker ... not found in correlation matrix")\<close>, the error the specification
  calls UnknownTickerError; a ticker that is not a node of the graph makes
  \<^verbatim>\<open>get_similar_stocks\<close> return normally, with the empty list for that ticker.
\<close>

theorem unknown_ticker_strict_and_lenient:
  "(t \<notin> set (labels m) \<longrightarrow> get_topk_similar_stocks m t k = Inl (ValueError (Ticker_not_found t)))
   \<and> (u \<notin> fst ` set (graph self) \<and> u \<in> set tickers \<longrightarrow>
        (\<exists>results. get_similar_stocks self tickers n = Inr results \<and> map_of results u = Some []))"
proof -
  have "\<exists>results. get_similar_stocks self tickers n = Inr results \<and> map_of results u = Some []"
    if "u \<notin> fst ` set (graph self)" "u \<in> set tickers"
  proof -
    from get_similar_stocks_entries[of self tickers n] obtain results where
      r: "get_similar_stocks self tickers n = Inr results"
       "\<forall>t \<in> set tickers. \<exists>l. similar_of (graph self) t n = Inr l \<and> map_of results t = Some l"
      by blast
    then have "map_of results u = Some []" using that similar_of_unknown[of u "graph self" n] by auto
    then show ?thesis using r(1) by blast
  qed
  then show ?thesis by (simp add: get_topk_similar_stocks_def)
qed

section \<open>The example networks\<close>

lemma enumerate3: "enumerate 0 [a, b, c] = [(0, a), (1, b), (2, c)]"
  by (simp add: enumerate_eq_zip upt_rec)

lemma init_example_network: "init example_matrix [''A'', ''B'', ''C''] (1 / 2) = Inr example_network"
  by (simp add: init_def build_graph_def enumerate3 build_graph_step_def iloc_def set_edge_def
      empty_graph_def example_matrix_def example_network_def)

lemma init_sparse_network: "init sparse_matrix [''A'', ''B'', ''C''] (7 / 10) = Inr sparse_network"
  by (simp add: init_def build_graph_def enumerate3 build_graph_step_def iloc_def set_edge_def
      empty_graph_def sparse_matrix_def sparse_network_def)

section \<open>Common neighbours\<close>

lemma common_of_empty_list: "get_common_similar_stocks self [] n = Inr []"
  by (simp add: get_common_similar_stocks_def)

lemma sparse_similar:
  "get_similar_stocks sparse_network [''A'', ''C''] 3
     = Inr [(''A'', [\<lparr>ticker = ''B'', correlation_strength = 9 / 10\<rparr>]), (''C'', [])]"
  by (simp add: get_similar_stocks_def similar_of_def sparse_network_def push_outgoing_def
      push_incoming_def heappush_def pop_similar_take)

text \<open>
  C3. The claim: every candidate returned by \<^verbatim>\<open>get_common_similar_stocks\<close> is a neighbour of
  every input ticker. The code intersects only with the lists of the later tickers that
  are non-empty (\<^verbatim>\<open>if all_similar[ticker]:\<close>), so a later ticker without neighbours is
  skipped instead of emptying the candidate set. In the network built from
  \<^const>\<open>sparse_matrix\<close> the only edge goes from A to B and C has no neighbour: for the input
  \<open>[A, C]\<close> the code returns B, which is no neighbour of C, while for \<open>[C, A]\<close> it returns
  nothing.
\<close>

theorem common_stocks_skip_ticker_without_neighbors:
  "init sparse_matrix [''A'', ''B'', ''C''] (7 / 10) = Inr sparse_network
   \<and> get_common_similar_stocks sparse_network [''A'', ''C''] 10
       = Inr [\<lparr>ticker = ''B'', avg_correlation_strength = 9 / 20\<rparr>]
   \<and> ''B'' \<notin> neighbor_set (graph sparse_network) ''C''
   \<and> neighbor_set (graph sparse_network) ''C'' = {}
   \<and> get_common_similar_stocks sparse_network [''C'', ''A''] 10 = Inr []"
proof -
  have a: "get_common_similar_stocks sparse_network [''A'', ''C''] 10
       = Inr [\<lparr>ticker = ''B'', avg_correlation_strength = 9 / 20\<rparr>]"
    unfolding get_common_similar_stocks_def
    by (simp add: sparse_similar[unfolded sparse_network_def] sparse_network_def
        common_candidates_def lookup_def tickers_of_def intersect_step_def average_strength_def
        strength_of_def slice_to_def)
  have b: "neighbor_set (graph sparse_network) ''C'' = {}"
    by (auto simp: neighbor_set_def edge_def sparse_network_def split: option.splits if_splits)
  have "get_similar_stocks sparse_network [''C'', ''A''] 3
     = Inr [(''C'', []), (''A'', [\<lparr>ticker = ''B'', correlation_strength = 9 / 10\<rparr>])]"
    by (simp add: get_similar_stocks_def similar_of_def sparse_network_def push_outgoing_def
        push_incoming_def heappush_def pop_similar_take)
  then have c: "get_common_similar_stocks sparse_network [''C'', ''A''] 10 = Inr []"
    unfolding get_common_similar_stocks_def
    by (simp add: sparse_network_def common_candidates_def lookup_def slice_to_def)
  show ?thesis using init_sparse_network a b c by simp
qed

theorem similar_stocks_cover_input_without_self_witness:
  "\<exists>results. get_similar_stocks example_network [''A'', ''Z''] 10 = Inr results
     \<and> fst ` set results = {''A'', ''Z''}
     \<and> (\<exists>l. map_of results ''A'' = Some l \<and> ''A'' \<notin> ticker ` set l)
     \<and> (\<exists>l. map_of results ''Z'' = Some l \<and> ''Z'' \<notin> ticker ` set l)"
proof -
  from similar_stocks_cover_input_without_self[of example_network "[''A'', ''Z'']" 10]
  obtain results where r: "get_similar_stocks example_network [''A'', ''Z''] 10 = Inr results"
    "fst ` set results = set [''A'', ''Z'']"
    "\<forall>t \<in> set [''A'', ''Z'']. \<exists>l. map_of results t = Some l \<and> t \<notin> ticker ` set l"
    by blast
  from r(3) have "(\<exists>l. map_of results ''A'' = Some l \<and> ''A'' \<notin> ticker ` set l)"
    "(\<exists>l. map_of results ''Z'' = Some l \<and> ''Z'' \<notin> ticker ` set l)" by simp_all
  moreover from r(2) have "fst ` set results = {''A'', ''Z''}" by simp
  ultimately have "get_similar_stocks example_network [''A'', ''Z''] 10 = Inr results
     \<and> fst ` set results = {''A'', ''Z''}
     \<and> (\<exists>l. map_of results ''A'' = Some l \<and> ''A'' \<notin> ticker ` set l)
     \<and> (\<exists>l. map_of results ''Z'' = Some l \<and> ''Z'' \<notin> ticker ` set l)"
    using r(1) by (intro conjI)
  then show ?thesis by (rule exI[of _ results])
qed

theorem unknown_ticker_strict_and_lenient_witness:
  "''Z'' \<notin> set (labels example_matrix)
   \<and> get_topk_similar_stocks example_matrix ''Z'' 5 = Inl (ValueError (Ticker_not_found ''Z''))
   \<and> ''Z'' \<notin> fst ` set (graph example_network) \<and> ''Z'' \<in> set [''A'', ''Z'']
   \<and> (\<exists>results. get_similar_stocks example_network [''A'', ''Z''] 10 = Inr results
          \<and> map_of results ''Z'' = Some [])"
proof -
  have h1: "''Z'' \<notin> set (labels example_matrix)" by (simp add: example_matrix_def)
  have h2: "''Z'' \<notin> fst ` set (graph example_network)" by (simp add: example_network_def)
  have h3: "''Z'' \<in> set [''A'', ''Z'']" by simp
  note inst = unknown_ticker_strict_and_lenient
    [of "''Z''" example_matrix 5 "''Z''" example_network "[''A'', ''Z'']" 10]
  from inst[THEN conjunct1] h1 have a: "get_topk_similar_stocks example_matrix ''Z'' 5
      = Inl (ValueError (Ticker_not_found ''Z''))" by (rule mp)
  from h2 h3 have "''Z'' \<notin> fst ` set (graph example_network) \<and> ''Z'' \<in> set [''A'', ''Z'']"
    by (rule conjI)
  with inst[THEN conjunct2]
  have b: "\<exists>results. get_similar_stocks example_network [''A'', ''Z''] 10 = Inr results
          \<and> map_of results ''Z'' = Some []" by (rule mp)
  from h1 a h2 h3 b show ?thesis by (intro conjI)
qed

section \<open>The correlation window\<close>

lemma tail_rows_trailing:
  assumes "0 \<le> n" "n \<le> int (length xs)"
  shows "\<exists>older. xs = older @ tail_rows n xs \<and> length (tail_rows n xs) = nat n"
proof (cases "n = 0")
  case True
  then show ?thesis by (simp add: tail_rows_def)
next
  case False
  then have t: "tail_rows n xs = drop (length xs - nat n) xs" using assms by (simp add: tail_rows_def)
  have "xs = take (length xs - nat n) xs @ tail_rows n xs" by (simp add: t)
  moreover have "length (tail_rows n xs) = nat n" using assms by (simp add: t)
  ultimately show ?thesis by blast
qed

text \<open>
  C6. \<^verbatim>\<open>calculate_correlation_matrix\<close> raises exactly when \<open>n_days\<close> exceeds the number of rows,
  and the error is \<^verbatim>\<open>ValueError("Requested ... days but only ... available")\<close>, the
  specification's InsufficientDataError. Otherwise, for a window of \<open>n_days \<ge> 0\<close> rows, the
  frame handed to \<^verbatim>\<open>corr\<close> holds the last \<open>n_days\<close> rows of the returns, in their order, and
  the result of \<^verbatim>\<open>corr\<close> on it is returned.
\<close>

theorem correlation_window:
  "((\<exists>e. calculate_correlation_matrix corr returns_df n_days = Inl e)
      \<longleftrightarrow> n_days > int (len_df returns_df))
   \<and> (n_days > int (len_df returns_df) \<longrightarrow>
        calculate_correlation_matrix corr returns_df n_days
          = Inl (ValueError (Requested_days n_days (len_df returns_df))))
   \<and> (0 \<le> n_days \<and> n_days \<le> int (len_df returns_df) \<longrightarrow>
        (\<exists>older window. rows returns_df = older @ window \<and> length window = nat n_days
           \<and> calculate_correlation_matrix corr returns_df n_days
               = Inr (corr (returns_df\<lparr>rows := window\<rparr>))))"
proof -
  have "\<exists>older window. rows returns_df = older @ window \<and> length window = nat n_days
           \<and> calculate_correlation_matrix corr returns_df n_days
               = Inr (corr (returns_df\<lparr>rows := window\<rparr>))"
    if "0 \<le> n_days" "n_days \<le> int (len_df returns_df)"
  proof -
    from tail_rows_trailing[of n_days "rows returns_df"] that obtain older where
      "rows returns_df = older @ tail_rows n_days (rows returns_df)"
      "length (tail_rows n_days (rows returns_df)) = nat n_days"
      by (auto simp: len_df_def)
    moreover have "calculate_correlation_matrix corr returns_df n_days
               = Inr (corr (returns_df\<lparr>rows := tail_rows n_days (rows returns_df)\<rparr>))"
      using that by (simp add: calculate_correlation_matrix_def tail_def)
    ultimately show ?thesis by blast
  qed
  then show ?thesis by (auto simp: calculate_correlation_matrix_def)
qed

theorem correlation_window_witness:
  "(0::int) \<le> 2 \<and> 2 \<le> int (len_df example_returns)
   \<and> (\<exists>older window. rows example_returns = older @ window \<and> length window = nat 2
         \<and> calculate_correlation_matrix window_probe example_returns 2
             = Inr (window_probe (example_returns\<lparr>rows := window\<rparr>)))
   \<and> 7 > int (len_df example_returns)
   \<and> calculate_correlation_matrix window_probe example_returns 7
       = Inl (ValueError (Requested_days 7 (len_df example_returns)))"
proof -
  have h: "(0::int) \<le> 2 \<and> 2 \<le> int (len_df example_returns)"
    by (simp add: len_df_def example_returns_def)
  have h7: "7 > int (len_df example_returns)" by (simp add: len_df_def example_returns_def)
  note a = correlation_window[of window_probe example_returns 2, THEN conjunct2, THEN conjunct2]
  note b = correlation_window[of window_probe example_returns 7, THEN conjunct2, THEN conjunct1]
  from a h have "\<exists>older window. rows example_returns = older @ window \<and> length window = nat 2
         \<and> calculate_correlation_matrix window_probe example_returns 2
             = Inr (window_probe (example_returns\<lparr>rows := window\<rparr>))" by (rule mp)
  moreover from b h7 have "calculate_correlation_matrix window_probe example_returns 7
       = Inl (ValueError (Requested_days 7 (len_df example_returns)))" by (rule mp)
  ultimately show ?thesis using h h7 by (intro conjI) simp_all
qed

section \<open>The threshold query\<close>

lemma index_of_Some:
  "t \<in> set xs \<Longrightarrow> \<exists>c. index_of t xs = Some c \<and> c < length xs \<and> xs ! c = t"
  by (induction xs) auto

lemma sorted_sort_by_score_reverse: "sorted (rev (map snd (sort_by_score_reverse xs)))"
proof -
  have "sorted (map (\<lambda>x. - snd x) (sort_by_score_reverse xs))"
    unfolding sort_by_score_reverse_def by (rule sorted_sort_key)
  then have "sorted (map uminus (map snd (sort_by_score_reverse xs)))" by (simp add: comp_def)
  then show ?thesis by (simp only: sorted_rev_uminus)
qed

lemma column_is_row:
  assumes "correlation_matrix_ok m" "c < length (labels m)"
  shows "map (\<lambda>r. r ! c) (cells m) = cells m ! c"
proof (rule nth_equalityI)
  show "length (map (\<lambda>r. r ! c) (cells m)) = length (cells m ! c)"
    using assms by (simp add: correlation_matrix_ok_def)
next
  fix i assume "i < length (map (\<lambda>r. r ! c) (cells m))"
  then have "i < length (labels m)" using assms by (simp add: correlation_matrix_ok_def)
  then show "map (\<lambda>r. r ! c) (cells m) ! i = cells m ! c ! i"
    using assms by (simp add: correlation_matrix_ok_def)
qed

text \<open>Two descending lists of the same items are the same list when no two scores are equal.\<close>

lemma descending_unique:
  fixes xs ys :: series
  assumes "mset xs = mset ys" "sorted (rev (map snd xs))" "sorted (rev (map snd ys))"
    and "distinct (map snd ys)"
  shows "xs = ys"
proof -
  have inj: "inj_on (\<lambda>x. - snd x) (set ys)"
    using assms(4) by (auto simp: distinct_map inj_on_def)
  have sx: "sorted (map (\<lambda>x. - snd x) xs)"
    using assms(2) sorted_rev_uminus[of "map snd xs"] by (simp add: comp_def)
  have sy: "sorted (map (\<lambda>x. - snd x) ys)"
    using assms(3) sorted_rev_uminus[of "map snd ys"] by (simp add: comp_def)
  have "sort_key (\<lambda>x. - snd x) ys = xs"
    using assms(1) inj sx by (intro sort_key_inj_key_eq) simp_all
  moreover have "sort_key (\<lambda>x. - snd x) ys = ys"
    using inj sy by (intro sort_key_inj_key_eq) simp_all
  ultimately show ?thesis by simp
qed

text \<open>
  C7. Claimed: \<^verbatim>\<open>get_similar_stocks_threshold\<close> returns exactly the tickers other than \<open>t\<close>
  whose score is at least \<open>\<tau>\<close>, sorted descending, equal to a brute-force filter-then-sort
  over the matrix row of \<open>t\<close>. What holds, for a correlation matrix as the data model has it,
  a ticker \<open>t\<close> among its labels and whatever order \<^verbatim>\<open>sort_values\<close> gives to equal values:
  the code returns exactly the items of the brute-force reference, each as often as there,
  highest score first; and when no two of these scores are equal, it returns the very list
  of the reference.
\<close>

theorem above_threshold_items_descending:
  assumes "descending_sort sort_values" "correlation_matrix_ok m" "t \<in> set (labels m)"
  shows "\<exists>res. get_similar_stocks_threshold sort_values m t \<tau> = Inr res
           \<and> mset res = mset (above_threshold_brute_force m t \<tau>)
           \<and> set res = {(u, score). (u, score) \<in> set (matrix_row m t) \<and> u \<noteq> t \<and> score \<ge> \<tau>}
           \<and> sorted (rev (map snd res))
           \<and> (distinct (map snd (above_threshold_brute_force m t \<tau>)) \<longrightarrow>
                 res = above_threshold_brute_force m t \<tau>)"
proof -
  let ?kept = "filter (\<lambda>(u, score). u \<noteq> t \<and> score \<ge> \<tau>) (matrix_row m t)"
  let ?res = "sort_values ?kept"
  let ?ref = "above_threshold_brute_force m t \<tau>"
  from index_of_Some[OF assms(3)] obtain c where
    c: "index_of t (labels m) = Some c" "c < length (labels m)" "labels m ! c = t" by blast
  have col: "matrix_column m t = Inr (matrix_row m t)"
    using c column_is_row[OF assms(2) c(2)] by (simp add: matrix_column_def matrix_row_def)
  have "length (cells m ! c) = length (labels m)"
    using assms(2) c(2) by (simp add: correlation_matrix_ok_def)
  then have "map fst (matrix_row m t) = labels m"
    using c(1) by (simp add: matrix_row_def)
  then have "fst ` set (matrix_row m t) = set (labels m)"
    by (metis set_map)
  then have "t \<in> fst ` set (matrix_row m t)"
    using assms(3) by simp
  then have "drop_label (matrix_row m t) t = Inr (filter (\<lambda>x. fst x \<noteq> t) (matrix_row m t))"
    by (simp add: drop_label_def)
  moreover have "filter (\<lambda>x. snd x \<ge> \<tau>) (filter (\<lambda>x. fst x \<noteq> t) (matrix_row m t)) = ?kept"
    by (simp add: case_prod_unfold conj_commute cong: filter_cong)
  ultimately have run: "get_similar_stocks_threshold sort_values m t \<tau> = Inr ?res"
    using assms(3) col by (simp add: get_similar_stocks_threshold_def)
  have ms: "mset ?res = mset ?kept" and srt: "sorted (rev (map snd ?res))"
    using assms(1) by (simp_all add: descending_sort_def)
  have ref: "mset ?ref = mset ?kept"
    by (simp add: above_threshold_brute_force_def sort_by_score_reverse_def)
  have same: "mset ?res = mset ?ref" using ms ref by simp
  have "set ?res = set ?kept" using ms by (rule mset_eq_setD)
  then have st: "set ?res = {(u, score). (u, score) \<in> set (matrix_row m t) \<and> u \<noteq> t \<and> score \<ge> \<tau>}"
    by auto
  have "?res = ?ref" if "distinct (map snd ?ref)"
    using same srt _ that
  proof (rule descending_unique)
    show "sorted (rev (map snd ?ref))"
      unfolding above_threshold_brute_force_def by (rule sorted_sort_by_score_reverse)
  qed
  then have "get_similar_stocks_threshold sort_values m t \<tau> = Inr ?res
           \<and> mset ?res = mset ?ref
           \<and> set ?res = {(u, score). (u, score) \<in> set (matrix_row m t) \<and> u \<noteq> t \<and> score \<ge> \<tau>}
           \<and> sorted (rev (map snd ?res))
           \<and> (distinct (map snd ?ref) \<longrightarrow> ?res = ?ref)"
    using run same st srt by blast
  then show ?thesis by (rule exI[of _ ?res])
qed

lemma ok_example: "correlation_matrix_ok example_matrix"
  by (simp add: correlation_matrix_ok_def example_matrix_def less_Suc_eq numeral_3_eq_3 all_conj_distrib)

lemma ok_tied: "correlation_matrix_ok tied_matrix"
  by (simp add: correlation_matrix_ok_def tied_matrix_def less_Suc_eq eval_nat_numeral all_conj_distrib)

lemma descending_ascending_then_reversed: "descending_sort ascending_then_reversed"
  by (simp add: descending_sort_def ascending_then_reversed_def rev_map[symmetric])

lemma descending_stable: "descending_sort sort_by_score_reverse"
  by (simp add: descending_sort_def sorted_sort_by_score_reverse) (simp add: sort_by_score_reverse_def)

text \<open>
  With equal scores the list need not be the list of the reference. numpy's quicksort,
  on which \<^verbatim>\<open>sort_values\<close> runs, is free in the order of equal values; under a descending
  sort that leaves them in the reverse of their order, the column of A in
  \<^const>\<open>tied_matrix\<close> comes out E, D, C, B, where the reference gives D, E, B, C.
\<close>

theorem equal_scores_break_brute_force_equality:
  "descending_sort ascending_then_reversed
   \<and> correlation_matrix_ok tied_matrix
   \<and> get_similar_stocks_threshold ascending_then_reversed tied_matrix ''A'' (1 / 2)
       = Inr [(''E'', 9 / 10), (''D'', 9 / 10), (''C'', 1 / 2), (''B'', 1 / 2)]
   \<and> above_threshold_brute_force tied_matrix ''A'' (1 / 2)
       = [(''D'', 9 / 10), (''E'', 9 / 10), (''B'', 1 / 2), (''C'', 1 / 2)]
   \<and> get_similar_stocks_threshold ascending_then_reversed tied_matrix ''A'' (1 / 2)
       \<noteq> Inr (above_threshold_brute_force tied_matrix ''A'' (1 / 2))"
proof -
  have a: "get_similar_stocks_threshold ascending_then_reversed tied_matrix ''A'' (1 / 2)
       = Inr [(''E'', 9 / 10), (''D'', 9 / 10), (''C'', 1 / 2), (''B'', 1 / 2)]"
    by (simp add: get_similar_stocks_threshold_def matrix_column_def drop_label_def
        tied_matrix_def ascending_then_reversed_def)
  have b: "above_threshold_brute_force tied_matrix ''A'' (1 / 2)
       = [(''D'', 9 / 10), (''E'', 9 / 10), (''B'', 1 / 2), (''C'', 1 / 2)]"
    by (simp add: above_threshold_brute_force_def matrix_row_def tied_matrix_def
        sort_by_score_reverse_def)
  have c: "get_similar_stocks_threshold ascending_then_reversed tied_matrix ''A'' (1 / 2)
       \<noteq> Inr (above_threshold_brute_force tied_matrix ''A'' (1 / 2))"
    by (simp only: a b) simp
  from descending_ascending_then_reversed ok_tied a b c show ?thesis by (intro conjI)
qed

theorem above_threshold_items_descending_witness:
  "descending_sort ascending_then_reversed \<and> correlation_matrix_ok example_matrix
   \<and> ''A'' \<in> set (labels example_matrix)
   \<and> above_threshold_brute_force example_matrix ''A'' (- 1) = [(''B'', 1), (''C'', - 1)]
   \<and> distinct (map snd (above_threshold_brute_force example_matrix ''A'' (- 1)))
   \<and> get_similar_stocks_threshold ascending_then_reversed example_matrix ''A'' (- 1)
       = Inr [(''B'', 1), (''C'', - 1)]"
proof -
  have a: "''A'' \<in> set (labels example_matrix)" by (simp add: example_matrix_def)
  have b: "above_threshold_brute_force example_matrix ''A'' (- 1) = [(''B'', 1), (''C'', - 1)]"
    by (simp add: above_threshold_brute_force_def matrix_row_def example_matrix_def
        sort_by_score_reverse_def)
  have d: "distinct (map snd (above_threshold_brute_force example_matrix ''A'' (- 1)))"
    by (simp only: b) simp
  from above_threshold_items_descending
    [OF descending_ascending_then_reversed ok_example a, of "- 1"]
  obtain res where r:
    "get_similar_stocks_threshold ascending_then_reversed example_matrix ''A'' (- 1) = Inr res"
    "distinct (map snd (above_threshold_brute_force example_matrix ''A'' (- 1))) \<longrightarrow>
       res = above_threshold_brute_force example_matrix ''A'' (- 1)"
    by blast
  from r(2) d have "res = above_threshold_brute_force example_matrix ''A'' (- 1)" by (rule mp)
  then have "res = [(''B'', 1), (''C'', - 1)]" by (simp only: b)
  with r(1) have c: "get_similar_stocks_threshold ascending_then_reversed example_matrix ''A'' (- 1)
       = Inr [(''B'', 1), (''C'', - 1)]" by simp
  from descending_ascending_then_reversed ok_example a b d c show ?thesis by (intro conjI)
qed

section \<open>Sharpe ratios and their ranking\<close>

lemma float_ops [simp]:
  "fmul (Some x) (Some y) = Some (x * y)" "fmul None b = None" "fmul a None = None"
  "fsub (Some x) (Some y) = Some (x - y)" "fsub None b = None" "fsub a None = None"
  "fdiv (Some x) (Some y) = (if y = 0 then None else Some (x / y))"
  "fdiv None b = None" "fdiv a None = None"
  by (simp_all add: fmul_def fsub_def fdiv_def split: option.splits)

lemma getitem_column: "t \<in> set (columns df) \<Longrightarrow> getitem df t = Inr (column_of df t)"
  using index_of_Some[of t "columns df"] by (auto simp: getitem_def column_of_def)

lemma sharpe_loop:
  "set ts \<subseteq> set (columns df) \<Longrightarrow>
   for_each ts
     (\<lambda>tk sharpe_ratios.
        case getitem df tk of
          Inl e \<Rightarrow> Inl e
        | Inr col \<Rightarrow> Inr (sharpe_ratios @ [sharpe_ratio rf af col]))
     acc
   = Inr (acc @ map (\<lambda>t. sharpe_ratio rf af (column_of df t)) ts)"
  by (induction ts arbitrary: acc) (simp_all add: getitem_column)

lemma calculate_sharpe_ratios_map:
  "set tickers \<subseteq> set (columns df) \<Longrightarrow> af \<noteq> 0 \<Longrightarrow>
   calculate_sharpe_ratios df tickers rf af
     = Inr (map (\<lambda>t. sharpe_ratio rf af (column_of df t)) tickers)"
  by (simp add: calculate_sharpe_ratios_def truediv_def sharpe_loop)

lemma zero_factor_raises: "calculate_sharpe_ratios df tickers rf 0 = Inl ZeroDivisionError"
  by (simp add: calculate_sharpe_ratios_def truediv_def)

text \<open>
  C9. When every ordered ticker is a column of the returns and the annualization factor
  is not \<open>0\<close>, \<^verbatim>\<open>calculate_sharpe_ratios\<close> returns a list as long as the ticker list whose
  \<open>i\<close>-th element is the Sharpe ratio computed from the column of the \<open>i\<close>-th ticker (NaN
  when that column has fewer than two values). With the factor \<open>0\<close> the code raises
  \<^verbatim>\<open>ZeroDivisionError\<close> before the loop.
\<close>

theorem sharpe_ratios_in_ticker_order:
  assumes "set tickers \<subseteq> set (columns df)" "af \<noteq> 0"
  shows "\<exists>l. calculate_sharpe_ratios df tickers rf af = Inr l
           \<and> length l = length tickers
           \<and> (\<forall>i < length tickers.
                 getitem df (tickers ! i) = Inr (column_of df (tickers ! i))
                 \<and> l ! i = sharpe_ratio rf af (column_of df (tickers ! i)))"
proof -
  let ?l = "map (\<lambda>t. sharpe_ratio rf af (column_of df t)) tickers"
  have "calculate_sharpe_ratios df tickers rf af = Inr ?l"
    using assms by (rule calculate_sharpe_ratios_map)
  moreover have "length ?l = length tickers" by simp
  moreover have "\<forall>i < length tickers.
                 getitem df (tickers ! i) = Inr (column_of df (tickers ! i))
                 \<and> ?l ! i = sharpe_ratio rf af (column_of df (tickers ! i))"
  proof (intro allI impI)
    fix i assume "i < length tickers"
    then have "tickers ! i \<in> set (columns df)" using assms(1) nth_mem by blast
    then show "getitem df (tickers ! i) = Inr (column_of df (tickers ! i))
                 \<and> ?l ! i = sharpe_ratio rf af (column_of df (tickers ! i))"
      using \<open>i < length tickers\<close> by (simp add: getitem_column)
  qed
  ultimately show ?thesis by blast
qed

lemma example_columns:
  "dropna (column_of example_returns ''A'') = [1, 2, - 1, 3, 0]"
  "dropna (column_of example_returns ''D'') = [0, 0, 0, 0, 0]"
  by (simp_all add: column_of_def column_at_def example_returns_def)

lemma example_volatility:
  "fmul (std [1, 2, - 1, 3, 0]) (np_sqrt 252) = Some (sqrt (5 / 2) * sqrt 252)"
  "sqrt (5 / 2) * sqrt 252 \<noteq> 0"
  "fmul (std [0, 0, 0, 0, 0]) (np_sqrt 252) = Some 0"
  by (simp_all add: std_def np_sqrt_def power2_eq_square)

lemma example_scores:
  "sharpe_ratio (1 / 25) 252 (column_of example_returns ''A'')
     = Some ((252 - 1 / 25) / (sqrt (5 / 2) * sqrt 252))"
  "sharpe_ratio (1 / 25) 252 (column_of example_returns ''D'') = Some 0"
  using example_volatility
  by (simp_all add: sharpe_ratio_def Let_def example_columns mean_def)

lemma one_day_scores:
  "calculate_sharpe_ratios one_day_returns [''A'', ''B''] (1 / 25) 252 = Inr [None, None]"
  by (simp add: calculate_sharpe_ratios_def truediv_def getitem_def one_day_returns_def
      column_at_def sharpe_ratio_def Let_def std_def)

theorem sharpe_ratios_in_ticker_order_witness:
  "set [''A'', ''D''] \<subseteq> set (columns example_returns) \<and> (252::int) \<noteq> 0
   \<and> (\<exists>l. calculate_sharpe_ratios example_returns [''A'', ''D''] (1 / 25) 252 = Inr l
         \<and> length l = 2
         \<and> l ! 0 = Some ((252 - 1 / 25) / (sqrt (5 / 2) * sqrt 252))
         \<and> l ! 1 = Some 0)"
proof -
  have h: "set [''A'', ''D''] \<subseteq> set (columns example_returns)"
    by (simp add: example_returns_def)
  have n: "(252::int) \<noteq> 0" by simp
  from sharpe_ratios_in_ticker_order[OF h n, of "1 / 25"] obtain l where
    l: "calculate_sharpe_ratios example_returns [''A'', ''D''] (1 / 25) 252 = Inr l"
       "length l = length [''A'', ''D'']"
       "\<forall>i < length [''A'', ''D''].
           getitem example_returns ([''A'', ''D''] ! i) = Inr (column_of example_returns ([''A'', ''D''] ! i))
           \<and> l ! i = sharpe_ratio (1 / 25) 252 (column_of example_returns ([''A'', ''D''] ! i))"
    by blast
  from l(3) have "l ! 0 = sharpe_ratio (1 / 25) 252 (column_of example_returns ''A'')"
    "l ! 1 = sharpe_ratio (1 / 25) 252 (column_of example_returns ''D'')" by simp_all
  then have "l ! 0 = Some ((252 - 1 / 25) / (sqrt (5 / 2) * sqrt 252))" "l ! 1 = Some 0"
    by (simp_all only: example_scores)
  moreover have "length l = 2" using l(2) by simp
  ultimately have "calculate_sharpe_ratios example_returns [''A'', ''D''] (1 / 25) 252 = Inr l
         \<and> length l = 2
         \<and> l ! 0 = Some ((252 - 1 / 25) / (sqrt (5 / 2) * sqrt 252))
         \<and> l ! 1 = Some 0" using l(1) by (intro conjI)
  then have "\<exists>l. calculate_sharpe_ratios example_returns [''A'', ''D''] (1 / 25) 252 = Inr l
         \<and> length l = 2
         \<and> l ! 0 = Some ((252 - 1 / 25) / (sqrt (5 / 2) * sqrt 252))
         \<and> l ! 1 = Some 0"
    by (rule exI[of _ l])
  with h n show ?thesis by (intro conjI)
qed

lemma length_dropna_full: "None \<notin> set col \<Longrightarrow> length (dropna col) = length col"
  by (induction col rule: dropna.induct) auto

lemma length_column_of: "length (column_of df t) = len_df df"
  by (simp add: column_of_def column_at_def len_df_def)

lemma sharpe_ratio_nan: "length (dropna col) < 2 \<Longrightarrow> sharpe_ratio rf af col = None"
  by (simp add: sharpe_ratio_def Let_def std_def)

lemma sharpe_ratio_number:
  "2 \<le> length (dropna col) \<Longrightarrow> 0 \<le> af \<Longrightarrow> \<exists>v. sharpe_ratio rf af col = Some v"
  by (auto simp: sharpe_ratio_def Let_def std_def mean_def np_sqrt_def)

lemma sharpe_ratio_cases:
  "(let returns = dropna col;
        annualized_return = fmul (mean returns) (Some (real_of_int af));
        annualized_volatility = fmul (std returns) (np_sqrt (real_of_int af))
    in (annualized_volatility = Some 0 \<longrightarrow> sharpe_ratio rf af col = Some 0)
       \<and> (\<forall>v. annualized_volatility = Some v \<and> v \<noteq> 0 \<longrightarrow>
            (\<exists>r. annualized_return = Some r \<and> sharpe_ratio rf af col = Some ((r - rf) / v)))
       \<and> (annualized_volatility = None \<longrightarrow> sharpe_ratio rf af col = None))"
  by (auto simp: sharpe_ratio_def Let_def std_def mean_def np_sqrt_def split: if_splits)

lemma descending_scores_numbers:
  assumes "None \<notin> snd ` set xs"
  shows "descending_scores (sort_key (\<lambda>x. - the (snd x)) xs)"
proof -
  let ?r = "sort_key (\<lambda>x. - the (snd x)) xs"
  have "sorted (map (\<lambda>x. - the (snd x)) ?r)" by (rule sorted_sort_key)
  then have "sorted_wrt (\<lambda>x y. - the (snd x) \<le> - the (snd y)) ?r" by (simp add: sorted_map)
  moreover have "\<not> flt (snd x) (snd y)"
    if "x \<in> set ?r" "y \<in> set ?r" "- the (snd x) \<le> - the (snd y)" for x y
  proof -
    from that(1,2) assms obtain a b where "snd x = Some a" "snd y = Some b" by force
    then show ?thesis using that(3) by (simp add: flt_def)
  qed
  ultimately show ?thesis
    unfolding descending_scores_def by (rule sorted_wrt_mono_rel[rotated]) blast
qed

lemma descending_scores_nan:
  assumes "snd ` set xs \<subseteq> {None}"
  shows "descending_scores xs"
proof -
  have "sorted_wrt (\<lambda>x y. True) xs" by simp
  moreover have "\<not> flt (snd x) (snd y)" if "x \<in> set xs" for x y
  proof -
    from that assms have "snd x = None" by auto
    then show ?thesis by (simp add: flt_def)
  qed
  ultimately show ?thesis
    unfolding descending_scores_def by (rule sorted_wrt_mono_rel[rotated]) blast
qed


text \<open>
  C8. When every ordered ticker is a column of the returns:
  \<^item> for a factor other than \<open>0\<close>, the score computed for a ticker is \<open>0\<close> when the annualized
    volatility is \<open>0\<close>, is \<open>(annualized_return - risk_free_rate) / annualized_volatility\<close> when
    the volatility is a number other than \<open>0\<close>, and is NaN when the volatility is NaN (a
    column of fewer than two values), which is what the same quotient is in floats;
  \<^item> \<^verbatim>\<open>get_sharpe_ranking\<close> returns all tickers paired with their scores (for the factor
    \<open>252\<close>);
  \<^item> when the columns of the tickers have no missing value, as in the data model, no score
    of the ranking is less than a later one; and when every ticker has at least two
    returns, all scores are numbers and the ranking is the stable descending sort of the
    pairs.
\<close>

theorem sharpe_formula_and_ranking:
  assumes "python_sort list_sort" "set tickers \<subseteq> set (columns df)"
  shows "(af \<noteq> 0 \<longrightarrow>
          (\<exists>scores. calculate_sharpe_ratios df tickers rf af = Inr scores
             \<and> (\<forall>i < length tickers.
                  (let returns = dropna (column_of df (tickers ! i));
                       annualized_return = fmul (mean returns) (Some (real_of_int af));
                       annualized_volatility = fmul (std returns) (np_sqrt (real_of_int af))
                   in (annualized_volatility = Some 0 \<longrightarrow> scores ! i = Some 0)
                      \<and> (\<forall>v. annualized_volatility = Some v \<and> v \<noteq> 0 \<longrightarrow>
                           (\<exists>r. annualized_return = Some r
                              \<and> scores ! i = Some ((r - rf) / v)))
                      \<and> (annualized_volatility = None \<longrightarrow> scores ! i = None)))))
         \<and> (\<exists>scores ranked.
               calculate_sharpe_ratios df tickers rf 252 = Inr scores
               \<and> length scores = length tickers
               \<and> get_sharpe_ranking list_sort df tickers rf = Inr ranked
               \<and> mset ranked = mset (zip tickers scores)
               \<and> ((\<forall>t \<in> set tickers. None \<notin> set (column_of df t)) \<longrightarrow>
                     descending_scores ranked)
               \<and> ((\<forall>t \<in> set tickers. 2 \<le> length (dropna (column_of df t))) \<longrightarrow>
                     None \<notin> snd ` set ranked
                     \<and> ranked = sort_key (\<lambda>x. - the (snd x)) (zip tickers scores)
                     \<and> descending_scores ranked))"
proof -
  let ?s = "\<lambda>af. map (\<lambda>t. sharpe_ratio rf af (column_of df t)) tickers"
  have c: "calculate_sharpe_ratios df tickers rf af = Inr (?s af)" if "af \<noteq> 0" for af
    using assms(2) that by (rule calculate_sharpe_ratios_map)
  have formula: "\<forall>i < length tickers.
                  (let returns = dropna (column_of df (tickers ! i));
                       annualized_return = fmul (mean returns) (Some (real_of_int af));
                       annualized_volatility = fmul (std returns) (np_sqrt (real_of_int af))
                   in (annualized_volatility = Some 0 \<longrightarrow> ?s af ! i = Some 0)
                      \<and> (\<forall>v. annualized_volatility = Some v \<and> v \<noteq> 0 \<longrightarrow>
                           (\<exists>r. annualized_return = Some r
                              \<and> ?s af ! i = Some ((r - rf) / v)))
                      \<and> (annualized_volatility = None \<longrightarrow> ?s af ! i = None))"
  proof (intro allI impI)
    fix i assume "i < length tickers"
    then have "?s af ! i = sharpe_ratio rf af (column_of df (tickers ! i))" by simp
    then show "(let returns = dropna (column_of df (tickers ! i));
                       annualized_return = fmul (mean returns) (Some (real_of_int af));
                       annualized_volatility = fmul (std returns) (np_sqrt (real_of_int af))
                   in (annualized_volatility = Some 0 \<longrightarrow> ?s af ! i = Some 0)
                      \<and> (\<forall>v. annualized_volatility = Some v \<and> v \<noteq> 0 \<longrightarrow>
                           (\<exists>r. annualized_return = Some r
                              \<and> ?s af ! i = Some ((r - rf) / v)))
                      \<and> (annualized_volatility = None \<longrightarrow> ?s af ! i = None))"
      using sharpe_ratio_cases[of "column_of df (tickers ! i)" af rf] by (simp only:)
  qed
  have first: "af \<noteq> 0 \<longrightarrow>
          (\<exists>scores. calculate_sharpe_ratios df tickers rf af = Inr scores
             \<and> (\<forall>i < length tickers.
                  (let returns = dropna (column_of df (tickers ! i));
                       annualized_return = fmul (mean returns) (Some (real_of_int af));
                       annualized_volatility = fmul (std returns) (np_sqrt (real_of_int af))
                   in (annualized_volatility = Some 0 \<longrightarrow> scores ! i = Some 0)
                      \<and> (\<forall>v. annualized_volatility = Some v \<and> v \<noteq> 0 \<longrightarrow>
                           (\<exists>r. annualized_return = Some r
                              \<and> scores ! i = Some ((r - rf) / v)))
                      \<and> (annualized_volatility = None \<longrightarrow> scores ! i = None))))"
    using c[of af] formula by blast
  let ?z = "zip tickers (?s 252)"
  let ?r = "list_sort ?z"
  have c252: "calculate_sharpe_ratios df tickers rf 252 = Inr (?s 252)" by (rule c) simp
  have rk: "get_sharpe_ranking list_sort df tickers rf = Inr ?r"
    by (simp add: get_sharpe_ranking_def c252)
  have ms: "mset ?r = mset ?z" using assms(1) by (simp add: python_sort_def)
  have st: "set ?r = set ?z" using ms by (rule mset_eq_setD)
  have scores_of: "snd ` set ?z = (\<lambda>t. sharpe_ratio rf 252 (column_of df t)) ` set tickers"
    by (simp add: zip_map2 image_image set_zip_rightD) (force simp: in_set_zip in_set_conv_nth)
  have numbers: "None \<notin> snd ` set ?r \<and> ?r = sort_key (\<lambda>x. - the (snd x)) ?z \<and> descending_scores ?r"
    if h: "\<forall>t \<in> set tickers. 2 \<le> length (dropna (column_of df t))"
  proof -
    have "sharpe_ratio rf 252 (column_of df t) \<noteq> None" if "t \<in> set tickers" for t
      using sharpe_ratio_number[of "column_of df t" 252 rf] h that by auto
    then have nn: "None \<notin> snd ` set ?z" unfolding scores_of by force
    then have eq: "?r = sort_key (\<lambda>x. - the (snd x)) ?z"
      using assms(1) by (simp add: python_sort_def)
    moreover have "descending_scores (sort_key (\<lambda>x. - the (snd x)) ?z)"
      using nn by (rule descending_scores_numbers)
    ultimately show ?thesis using nn st by simp
  qed
  have full: "descending_scores ?r" if h: "\<forall>t \<in> set tickers. None \<notin> set (column_of df t)"
  proof (cases "2 \<le> len_df df")
    case True
    have "\<forall>t \<in> set tickers. 2 \<le> length (dropna (column_of df t))"
      using h True by (simp add: length_dropna_full length_column_of)
    then show ?thesis using numbers by blast
  next
    case False
    have "sharpe_ratio rf 252 (column_of df t) = None" if "t \<in> set tickers" for t
      using h that False by (intro sharpe_ratio_nan) (simp add: length_dropna_full length_column_of)
    then have "snd ` set ?z \<subseteq> {None}" unfolding scores_of by auto
    then have "snd ` set ?r \<subseteq> {None}" using st by simp
    then show ?thesis by (rule descending_scores_nan)
  qed
  have "calculate_sharpe_ratios df tickers rf 252 = Inr (?s 252)
               \<and> length (?s 252) = length tickers
               \<and> get_sharpe_ranking list_sort df tickers rf = Inr ?r
               \<and> mset ?r = mset (zip tickers (?s 252))
               \<and> ((\<forall>t \<in> set tickers. None \<notin> set (column_of df t)) \<longrightarrow>
                     descending_scores ?r)
               \<and> ((\<forall>t \<in> set tickers. 2 \<le> length (dropna (column_of df t))) \<longrightarrow>
                     None \<notin> snd ` set ?r
                     \<and> ?r = sort_key (\<lambda>x. - the (snd x)) (zip tickers (?s 252))
                     \<and> descending_scores ?r)"
  proof -
    have full': "(\<forall>t \<in> set tickers. None \<notin> set (column_of df t)) \<longrightarrow>
                     descending_scores ?r" using full by blast
    have numbers': "(\<forall>t \<in> set tickers. 2 \<le> length (dropna (column_of df t))) \<longrightarrow>
                     None \<notin> snd ` set ?r
                     \<and> ?r = sort_key (\<lambda>x. - the (snd x)) (zip tickers (?s 252))
                     \<and> descending_scores ?r" using numbers by blast
    have len: "length (?s 252) = length tickers" by simp
    from c252 len rk ms full' numbers' show ?thesis by (intro conjI)
  qed
  then have "\<exists>ranked.
               calculate_sharpe_ratios df tickers rf 252 = Inr (?s 252)
               \<and> length (?s 252) = length tickers
               \<and> get_sharpe_ranking list_sort df tickers rf = Inr ranked
               \<and> mset ranked = mset (zip tickers (?s 252))
               \<and> ((\<forall>t \<in> set tickers. None \<notin> set (column_of df t)) \<longrightarrow>
                     descending_scores ranked)
               \<and> ((\<forall>t \<in> set tickers. 2 \<le> length (dropna (column_of df t))) \<longrightarrow>
                     None \<notin> snd ` set ranked
                     \<and> ranked = sort_key (\<lambda>x. - the (snd x)) (zip tickers (?s 252))
                     \<and> descending_scores ranked)"
    by (rule exI[of _ ?r])
  then have second: "\<exists>scores ranked.
               calculate_sharpe_ratios df tickers rf 252 = Inr scores
               \<and> length scores = length tickers
               \<and> get_sharpe_ranking list_sort df tickers rf = Inr ranked
               \<and> mset ranked = mset (zip tickers scores)
               \<and> ((\<forall>t \<in> set tickers. None \<notin> set (column_of df t)) \<longrightarrow>
                     descending_scores ranked)
               \<and> ((\<forall>t \<in> set tickers. 2 \<le> length (dropna (column_of df t))) \<longrightarrow>
                     None \<notin> snd ` set ranked
                     \<and> ranked = sort_key (\<lambda>x. - the (snd x)) (zip tickers scores)
                     \<and> descending_scores ranked)"
    by (rule exI[of _ "?s 252"])
  from first second show ?thesis by (rule conjI)
qed

lemma python_sort_stable_on_numbers: "python_sort stable_on_numbers"
  by (simp add: python_sort_def stable_on_numbers_def)

lemma example_volatility_positive: "0 < sqrt (5 / 2) * sqrt 252"
  by simp

lemma example_ratios:
  "calculate_sharpe_ratios example_returns [''D'', ''A''] (1 / 25) 252
     = Inr [Some 0, Some ((252 - 1 / 25) / (sqrt (5 / 2) * sqrt 252))]"
proof -
  have "set [''D'', ''A''] \<subseteq> set (columns example_returns)" by (simp add: example_returns_def)
  then show ?thesis
    by (simp add: calculate_sharpe_ratios_map example_scores del: float_ops)
qed

text \<open>On a single day of returns every score is NaN, and the ranking keeps the pairs.\<close>

lemma one_day_ranking:
  "get_sharpe_ranking stable_on_numbers one_day_returns [''A'', ''B''] (1 / 25)
     = Inr [(''A'', None), (''B'', None)]"
  by (simp add: get_sharpe_ranking_def one_day_scores stable_on_numbers_def)

theorem sharpe_formula_and_ranking_witness:
  "python_sort stable_on_numbers
   \<and> set [''D'', ''A''] \<subseteq> set (columns example_returns)
   \<and> 2 \<le> length (dropna (column_of example_returns ''D''))
   \<and> 2 \<le> length (dropna (column_of example_returns ''A''))
   \<and> fmul (std (dropna (column_of example_returns ''D''))) (np_sqrt 252) = Some 0
   \<and> fmul (std (dropna (column_of example_returns ''A''))) (np_sqrt 252)
       = Some (sqrt (5 / 2) * sqrt 252)
   \<and> sqrt (5 / 2) * sqrt 252 \<noteq> 0
   \<and> calculate_sharpe_ratios example_returns [''D'', ''A''] (1 / 25) 252
       = Inr [Some 0, Some ((252 - 1 / 25) / (sqrt (5 / 2) * sqrt 252))]
   \<and> get_sharpe_ranking stable_on_numbers example_returns [''D'', ''A''] (1 / 25)
       = Inr [(''A'', Some ((252 - 1 / 25) / (sqrt (5 / 2) * sqrt 252))), (''D'', Some 0)]"
proof -
  let ?T = "[''D'', ''A'']"
  let ?a = "(252 - 1 / 25) / (sqrt (5 / 2) * sqrt 252)"
  have h: "set ?T \<subseteq> set (columns example_returns)" by (simp add: example_returns_def)
  have two: "2 \<le> length (dropna (column_of example_returns ''D''))"
    "2 \<le> length (dropna (column_of example_returns ''A''))"
    by (simp_all add: example_columns)
  then have all2: "\<forall>t \<in> set ?T. 2 \<le> length (dropna (column_of example_returns t))" by simp
  have vol: "fmul (std (dropna (column_of example_returns ''D''))) (np_sqrt 252) = Some 0"
    "fmul (std (dropna (column_of example_returns ''A''))) (np_sqrt 252)
       = Some (sqrt (5 / 2) * sqrt 252)"
    by (simp_all only: example_columns example_volatility)
  from sharpe_formula_and_ranking
    [OF python_sort_stable_on_numbers h, of 252 "1 / 25", THEN conjunct2]
  obtain scores ranked where
    r: "calculate_sharpe_ratios example_returns ?T (1 / 25) 252 = Inr scores"
       "get_sharpe_ranking stable_on_numbers example_returns ?T (1 / 25) = Inr ranked"
       "(\<forall>t \<in> set ?T. 2 \<le> length (dropna (column_of example_returns t))) \<longrightarrow>
          None \<notin> snd ` set ranked
          \<and> ranked = sort_key (\<lambda>x. - the (snd x)) (zip ?T scores)
          \<and> descending_scores ranked"
    by blast
  from r(1) have scores: "scores = [Some 0, Some ?a]" by (simp only: example_ratios sum.inject)
  from r(3) all2 have "ranked = sort_key (\<lambda>x. - the (snd x)) (zip ?T scores)" by blast
  then have "ranked = [(''A'', Some ?a), (''D'', Some 0)]"
    using example_volatility_positive by (simp add: scores not_le)
  with r(2) have rk: "get_sharpe_ranking stable_on_numbers example_returns ?T (1 / 25)
       = Inr [(''A'', Some ?a), (''D'', Some 0)]" by simp
  from python_sort_stable_on_numbers h two vol example_volatility(2) example_ratios rk
  show ?thesis by (intro conjI)
qed

end
